theory Spec2Isabelle
  imports
    Complex_Main
    "HOL-Library.Finite_Map"
    "HOL-Library.Char_ord"
    "HOL-Library.List_Lexorder"
begin

section \<open>Go library functions used by the virtual lab\<close>

text \<open>
  Go strings are byte sequences: a \<^typ>\<open>string\<close> here. \<open>strings.HasPrefix\<close>,
  \<open>strings.CutPrefix\<close> (its first result, used only after \<open>HasPrefix\<close> held) and
  \<open>strings.Contains\<close>:
\<close>

definition HasPrefix :: "string \<Rightarrow> string \<Rightarrow> bool" where
  "HasPrefix s pre = (take (length pre) s = pre)"

definition CutPrefix :: "string \<Rightarrow> string \<Rightarrow> string" where
  "CutPrefix s pre = (if HasPrefix s pre then drop (length pre) s else s)"

fun Contains :: "string \<Rightarrow> string \<Rightarrow> bool" where
  "Contains [] sub = (sub = [])"
| "Contains (c # cs) sub = (HasPrefix (c # cs) sub \<or> Contains cs sub)"

text \<open>
  Go's \<open>int\<close> is taken as the 64-bit signed integer of the platforms the lab runs on.
  Values are kept as \<^typ>\<open>int\<close>; \<open>wrap64\<close> is the two's complement wrap-around of an
  arithmetic result.
\<close>

definition minInt :: int where
  "minInt = - 9223372036854775808"

definition maxInt :: int where
  "maxInt = 9223372036854775807"

definition wrap64 :: "int \<Rightarrow> int" where
  "wrap64 x = (x + 9223372036854775808) mod 18446744073709551616 - 9223372036854775808"

text \<open>
  \<open>strconv.Atoi\<close>: an optional sign, then one or more decimal digits and nothing else
  (base 10 admits no underscores); a value outside the range of \<open>int\<close> is an error.
  The fast path (fewer than 19 bytes) and the slow path (\<open>ParseInt\<close>) agree on this.
  The two kinds of \<open>NumError\<close> are not told apart by any caller here.
\<close>

definition isDigit :: "char \<Rightarrow> bool" where
  "isDigit ch = (48 \<le> (of_char ch :: int) \<and> (of_char ch :: int) \<le> 57)"

definition digitVal :: "char \<Rightarrow> int" where
  "digitVal ch = of_char ch - 48"

fun digitsVal :: "int \<Rightarrow> string \<Rightarrow> int option" where
  "digitsVal n [] = Some n"
| "digitsVal n (ch # cs) =
     (if isDigit ch then digitsVal (n * 10 + digitVal ch) cs else None)"

datatype NumError = NumError

definition Atoi :: "string \<Rightarrow> NumError + int" where
  "Atoi s =
     (case s of
        [] \<Rightarrow> Inl NumError
      | c # cs \<Rightarrow>
          (let neg = (c = CHR ''-'');
               body = (if c = CHR ''-'' \<or> c = CHR ''+'' then cs else s)
           in if body = [] then Inl NumError
              else (case digitsVal 0 body of
                      None \<Rightarrow> Inl NumError
                    | Some n \<Rightarrow>
                        (let v = (if neg then - n else n)
                         in if v < minInt \<or> maxInt < v then Inl NumError else Inr v))))"

text \<open>
  The verb \<open>%d\<close> of \<open>fmt.Sprintf\<close>, on an \<open>int\<close> and on a \<open>uint\<close>: the decimal digits,
  after a minus sign for a negative number.
\<close>

definition digitChar :: "int \<Rightarrow> char" where
  "digitChar d = char_of (48 + d)"

function showPos :: "int \<Rightarrow> string" where
  "showPos n = (if n < 10 then [digitChar n] else showPos (n div 10) @ [digitChar (n mod 10)])"
  by pat_completeness auto
termination
  by (relation "measure nat") auto

definition showInt :: "int \<Rightarrow> string" where
  "showInt i = (if i < 0 then CHR ''-'' # showPos (- i) else showPos i)"

definition showNat :: "nat \<Rightarrow> string" where
  "showNat n = showPos (int n)"

section \<open>Topology compiler\<close>

subsection \<open>Errors\<close>

datatype error =
    DuplicateName string
  | ControlRequired
  | MultipleControl
  | UnsupportedConnection string
  | LocalPortNil
  | DoesNotExist string
  | DestDoesNotExist string string
  | InterfaceExists string int string
  | PCIRequired string
  | PortConvError string
  | UnsupportedPortName string

subsection \<open>Port names\<close>

text \<open>
  \<open>portIdForName\<close>. \<open>errors.Wrapf\<close> of a nil error is nil, so the second result is an
  error exactly when \<open>Atoi\<close> failed; every caller drops the index then. The sum
  \<open>idx + 1\<close> is a sum of \<open>int\<close>s and wraps.
\<close>

definition portIdForName :: "string \<Rightarrow> error + int" where
  "portIdForName name =
     (if HasPrefix name ''Management0'' then Inr 0
      else if HasPrefix name ''Ethernet'' then
        (case Atoi (CutPrefix name ''Ethernet'') of
           Inl _ \<Rightarrow> Inl (PortConvError name)
         | Inr idx \<Rightarrow> Inr (wrap64 (idx + 1)))
      else if HasPrefix name ''port'' then
        (case Atoi (CutPrefix name ''port'') of
           Inl _ \<Rightarrow> Inl (PortConvError name)
         | Inr idx \<Rightarrow> Inr idx)
      else if HasPrefix name ''enp2s'' then
        (case Atoi (CutPrefix name ''enp2s'') of
           Inl _ \<Rightarrow> Inl (PortConvError name)
         | Inr idx \<Rightarrow> Inr idx)
      else Inl (UnsupportedPortName name))"

subsection \<open>Wiring model\<close>

text \<open>
  The wiring types belong to the fabric API, a library outside this repository. A port is
  used only through the three methods of the interface \<open>IPort\<close>; the record holds what
  they return. A connection spec is a struct of optional variants, inspected by the
  compiler in a fixed order; a link is the pair of ports the compiler reads from it.
\<close>

record IPort =
  DeviceName :: string
  LocalPortName :: string
  PortName :: string

record ConnectionSpec =
  Unbundled :: "(IPort \<times> IPort) option"
  Bundled :: "(IPort \<times> IPort) list option"
  Management :: "(IPort \<times> IPort) option"
  MCLAG :: "(IPort \<times> IPort) list option"
  MCLAGDomain :: "((IPort \<times> IPort) list \<times> (IPort \<times> IPort) list) option"
  NAT :: "IPort option"
  Fabric :: "(IPort \<times> IPort) list option"
  VPCLoopback :: "(IPort \<times> IPort) list option"

record Connection =
  Name :: string
  Spec :: ConnectionSpec

datatype ServerType = ServerTypeControl | ServerTypeDefault | ServerTypeOther string

record WiringServer =
  Name :: string
  Type :: ServerType

record WiringSwitch =
  Name :: string

text \<open>What \<open>data.Server.All()\<close>, \<open>data.Switch.All()\<close> and \<open>data.Connection.All()\<close> return.\<close>

record WiringData =
  ServerAll :: "WiringServer list"
  SwitchAll :: "WiringSwitch list"
  ConnectionAll :: "Connection list"

subsection \<open>Virtual machines\<close>

datatype VMType = VMTypeControl | VMTypeServer | VMTypeSwitchVS | VMTypeSwitchHW

record VMInterface =
  Connection :: string
  Netdev :: string
  Passthrough :: string

text \<open>
  A VM, without its sizing (\<open>Config\<close>), its directory and its two file markers: none of
  them is read by the compiler's interface assignment.
\<close>

record VM =
  ID :: int
  Name :: string
  Type :: VMType
  Interfaces :: "(int, VMInterface) fmap"

text \<open>
  The port constants are declared in a file that is not part of the sources at hand: they
  are a parameter. \<open>Links\<close> is the passthrough table of the configuration, from a port
  name to the PCI address of its entry.
\<close>

record Consts =
  SSH_PORT_BASE :: int
  KUBE_PORT :: int
  REGISTRY_PORT :: int
  IF_PORT_BASE :: int
  IF_PORT_VM_ID_MULT :: int
  IF_PORT_PORT_ID_MULT :: int

record Config =
  Links :: "(string, string) fmap"

record VMManager =
  cfg :: Config
  vms :: "(string, VM) fmap"

definition sshPortFor :: "Consts \<Rightarrow> int \<Rightarrow> int" where
  "sshPortFor k vmID = wrap64 (SSH_PORT_BASE k + vmID)"

definition ifacePortFor :: "Consts \<Rightarrow> VM \<Rightarrow> int \<Rightarrow> int" where
  "ifacePortFor k vm iface =
     wrap64 (IF_PORT_BASE k + ID vm * IF_PORT_VM_ID_MULT k + iface * IF_PORT_PORT_ID_MULT k)"

definition emptyInterface :: VMInterface where
  "emptyInterface = \<lparr>Connection = [], Netdev = [], Passthrough = []\<rparr>"

definition controlNetdev :: "Consts \<Rightarrow> string \<Rightarrow> int \<Rightarrow> string" where
  "controlNetdev k name vmID =
     ''user,hostfwd=tcp:127.0.0.1:'' @ showInt (sshPortFor k vmID) @
     ''-:22,hostfwd=tcp:127.0.0.1:'' @ showInt (KUBE_PORT k) @
     ''-:6443,hostfwd=tcp:127.0.0.1:'' @ showInt (REGISTRY_PORT k) @
     ''-:31000,hostname='' @ name @
     '',domainname=local,dnssearch=local,net=172.31.'' @ showInt vmID @
     ''.0/24,dhcpstart=172.31.'' @ showInt vmID @ ''.10''"

definition serverNetdev :: "Consts \<Rightarrow> string \<Rightarrow> int \<Rightarrow> string" where
  "serverNetdev k name vmID =
     ''user,hostfwd=tcp:127.0.0.1:'' @ showInt (sshPortFor k vmID) @
     ''-:22,hostname='' @ name @
     '',domainname=local,dnssearch=local,net=172.31.'' @ showInt vmID @
     ''.0/24,dhcpstart=172.31.'' @ showInt vmID @ ''.10,restrict=yes''"

definition hostInterface :: "string \<Rightarrow> (int, VMInterface) fmap" where
  "hostInterface netdev =
     fmupd 0 \<lparr>Connection = ''host'', Netdev = netdev, Passthrough = []\<rparr> fmempty"

subsection \<open>Assignment of VM identifiers\<close>

text \<open>
  The three loops of \<open>NewVMManager\<close> that create the VMs, each threading the registry
  and the counter \<open>vmID\<close>, and the two checks on the counter after the first loop.
\<close>

fun controlLoop ::
  "Consts \<Rightarrow> WiringServer list \<Rightarrow> (string, VM) fmap \<Rightarrow> int \<Rightarrow> error + ((string, VM) fmap \<times> int)"
where
  "controlLoop k [] m vmID = Inr (m, vmID)"
| "controlLoop k (server # rest) m vmID =
     (if WiringServer.Type server \<noteq> ServerTypeControl then controlLoop k rest m vmID
      else if fmlookup m (WiringServer.Name server) \<noteq> None
        then Inl (DuplicateName (WiringServer.Name server))
      else controlLoop k rest
             (fmupd (WiringServer.Name server)
                \<lparr>ID = vmID, Name = WiringServer.Name server, Type = VMTypeControl,
                 Interfaces = hostInterface (controlNetdev k (WiringServer.Name server) vmID)\<rparr> m)
             (vmID + 1))"

fun serverLoop ::
  "Consts \<Rightarrow> WiringServer list \<Rightarrow> (string, VM) fmap \<Rightarrow> int \<Rightarrow> error + ((string, VM) fmap \<times> int)"
where
  "serverLoop k [] m vmID = Inr (m, vmID)"
| "serverLoop k (server # rest) m vmID =
     (if WiringServer.Type server \<noteq> ServerTypeDefault then serverLoop k rest m vmID
      else if fmlookup m (WiringServer.Name server) \<noteq> None
        then Inl (DuplicateName (WiringServer.Name server))
      else serverLoop k rest
             (fmupd (WiringServer.Name server)
                \<lparr>ID = vmID, Name = WiringServer.Name server, Type = VMTypeServer,
                 Interfaces = hostInterface (serverNetdev k (WiringServer.Name server) vmID)\<rparr> m)
             (vmID + 1))"

fun switchLoop ::
  "WiringSwitch list \<Rightarrow> (string, VM) fmap \<Rightarrow> int \<Rightarrow> error + ((string, VM) fmap \<times> int)"
where
  "switchLoop [] m vmID = Inr (m, vmID)"
| "switchLoop (sw # rest) m vmID =
     (if fmlookup m (WiringSwitch.Name sw) \<noteq> None
        then Inl (DuplicateName (WiringSwitch.Name sw))
      else switchLoop rest
             (fmupd (WiringSwitch.Name sw)
                \<lparr>ID = vmID, Name = WiringSwitch.Name sw, Type = VMTypeSwitchVS,
                 Interfaces = fmempty\<rparr> m)
             (vmID + 1))"

definition assignVMs :: "Consts \<Rightarrow> WiringData \<Rightarrow> error + ((string, VM) fmap \<times> int)" where
  "assignVMs k data =
     (case controlLoop k (ServerAll data) fmempty 0 of
        Inl e \<Rightarrow> Inl e
      | Inr (m, vmID) \<Rightarrow>
          if vmID = 0 then Inl ControlRequired
          else if vmID > 1 then Inl MultipleControl
          else (case serverLoop k (ServerAll data) m vmID of
                  Inl e \<Rightarrow> Inl e
                | Inr (m', vmID') \<Rightarrow> switchLoop (SwitchAll data) m' vmID'))"

subsection \<open>Links\<close>

text \<open>
  The expansion of a connection into its links, in the order of the source's chain of
  tests. Only the NAT variant has a link without a second port.
\<close>

definition both :: "IPort \<times> IPort \<Rightarrow> IPort option \<times> IPort option" where
  "both l = (Some (fst l), Some (snd l))"

definition connLinks :: "Connection \<Rightarrow> error + (IPort option \<times> IPort option) list" where
  "connLinks conn =
     (let spec = Spec conn in
      case Unbundled spec of Some l \<Rightarrow> Inr [both l] | None \<Rightarrow>
      (case Bundled spec of Some ls \<Rightarrow> Inr (map both ls) | None \<Rightarrow>
      (case Management spec of Some l \<Rightarrow> Inr [both l] | None \<Rightarrow>
      (case MCLAG spec of Some ls \<Rightarrow> Inr (map both ls) | None \<Rightarrow>
      (case MCLAGDomain spec of Some (peer, session) \<Rightarrow> Inr (map both peer @ map both session) | None \<Rightarrow>
      (case NAT spec of Some sw \<Rightarrow> Inr [(Some sw, None)] | None \<Rightarrow>
      (case Fabric spec of Some ls \<Rightarrow> Inr (map both ls) | None \<Rightarrow>
      (case VPCLoopback spec of Some ls \<Rightarrow> Inr (map both ls) | None \<Rightarrow>
       Inl (UnsupportedConnection (Connection.Name conn))))))))))"

text \<open>
  \<open>AddLink\<close>. The registry holds pointers to VMs and the source writes the interface into
  the VM it found; no two names share a VM, so the write is an update at the device's
  name.
\<close>

definition udpNetdev :: "int \<Rightarrow> string" where
  "udpNetdev port = ''socket,udp=127.0.0.1:'' @ showInt port"

definition localaddrSuffix :: "int \<Rightarrow> string" where
  "localaddrSuffix port = '',localaddr=127.0.0.1:'' @ showInt port"

definition destOf :: "(string, VM) fmap \<Rightarrow> IPort \<Rightarrow> IPort option \<Rightarrow> error + (VM \<times> int) option" where
  "destOf m local dest =
     (case dest of
        None \<Rightarrow> Inr None
      | Some d \<Rightarrow>
          (case portIdForName (LocalPortName d) of
             Inl e \<Rightarrow> Inl e
           | Inr destPortID \<Rightarrow>
               (case fmlookup m (DeviceName d) of
                  None \<Rightarrow> Inl (DestDoesNotExist (DeviceName d) (PortName local))
                | Some destVM \<Rightarrow> Inr (Some (destVM, destPortID)))))"

definition AddLink ::
  "Consts \<Rightarrow> Config \<Rightarrow> (string, VM) fmap \<Rightarrow> IPort option \<Rightarrow> IPort option \<Rightarrow> string
     \<Rightarrow> error + (string, VM) fmap"
where
  "AddLink k c m local dest conn =
     (case local of
        None \<Rightarrow> Inl LocalPortNil
      | Some l \<Rightarrow>
          (case fmlookup m (DeviceName l) of
             None \<Rightarrow> Inl (DoesNotExist (DeviceName l))
           | Some localVM \<Rightarrow>
               (case portIdForName (LocalPortName l) of
                  Inl e \<Rightarrow> Inl e
                | Inr localPortID \<Rightarrow>
                    (case destOf m l dest of
                       Inl e \<Rightarrow> Inl e
                     | Inr d \<Rightarrow>
                         if fmlookup (Interfaces localVM) localPortID \<noteq> None
                         then Inl (InterfaceExists (DeviceName l) localPortID (PortName l))
                         else (case fmlookup (Links c) (PortName l) of
                                 Some pci \<Rightarrow>
                                   if pci = [] then Inl (PCIRequired (PortName l))
                                   else Inr (fmupd (DeviceName l)
                                          (localVM\<lparr>Interfaces :=
                                             fmupd localPortID
                                               \<lparr>Connection = conn, Netdev = [], Passthrough = pci\<rparr>
                                               (Interfaces localVM)\<rparr>) m)
                               | None \<Rightarrow>
                                   Inr (fmupd (DeviceName l)
                                          (localVM\<lparr>Interfaces :=
                                             fmupd localPortID
                                               \<lparr>Connection = conn,
                                                Netdev = udpNetdev (ifacePortFor k localVM localPortID) @
                                                  (case d of
                                                     None \<Rightarrow> []
                                                   | Some (destVM, destPortID) \<Rightarrow>
                                                       localaddrSuffix (ifacePortFor k destVM destPortID)),
                                                Passthrough = []\<rparr>
                                               (Interfaces localVM)\<rparr>) m))))))"

fun linkLoop ::
  "Consts \<Rightarrow> Config \<Rightarrow> string \<Rightarrow> (IPort option \<times> IPort option) list \<Rightarrow> (string, VM) fmap
     \<Rightarrow> error + (string, VM) fmap"
where
  "linkLoop k c conn [] m = Inr m"
| "linkLoop k c conn (link # rest) m =
     (case AddLink k c m (fst link) (snd link) conn of
        Inl e \<Rightarrow> Inl e
      | Inr m1 \<Rightarrow>
          (case AddLink k c m1 (snd link) (fst link) conn of
             Inl e \<Rightarrow> Inl e
           | Inr m2 \<Rightarrow> linkLoop k c conn rest m2))"

fun connLoop ::
  "Consts \<Rightarrow> Config \<Rightarrow> Connection list \<Rightarrow> (string, VM) fmap \<Rightarrow> error + (string, VM) fmap"
where
  "connLoop k c [] m = Inr m"
| "connLoop k c (conn # rest) m =
     (case connLinks conn of
        Inl e \<Rightarrow> Inl e
      | Inr links \<Rightarrow>
          (case linkLoop k c (Connection.Name conn) links m of
             Inl e \<Rightarrow> Inl e
           | Inr m' \<Rightarrow> connLoop k c rest m'))"

subsection \<open>Filling the gaps\<close>

text \<open>
  For one VM: \<open>maxDevID\<close> starts at 0 and rises to the largest key; \<open>usedDevs\<close> is the
  set of keys before the second loop, which runs over \<open>0, \<dots>, maxDevID\<close>.
\<close>

definition maxDevID :: "(int, VMInterface) fmap \<Rightarrow> int" where
  "maxDevID ifs =
     fold (\<lambda>iface mx. if iface > mx then iface else mx) (sorted_list_of_fset (fmdom ifs)) 0"

definition fillGaps :: "(int, VMInterface) fmap \<Rightarrow> (int, VMInterface) fmap" where
  "fillGaps ifs =
     fold (\<lambda>iface acc. if iface |\<notin>| fmdom ifs then fmupd iface emptyInterface acc else acc)
       [0 .. maxDevID ifs] ifs"

definition fillVM :: "VM \<Rightarrow> VM" where
  "fillVM vm = vm\<lparr>Interfaces := fillGaps (Interfaces vm)\<rparr>"

subsection \<open>The compiler\<close>

text \<open>
  \<open>NewVMManager\<close>, from the first VM on. The sizing of the three roles that precedes
  it changes only the \<open>Config\<close> fields left out above.
\<close>

definition NewVMManager :: "Consts \<Rightarrow> Config \<Rightarrow> WiringData \<Rightarrow> error + VMManager" where
  "NewVMManager k c data =
     (case assignVMs k data of
        Inl e \<Rightarrow> Inl e
      | Inr (m, vmID) \<Rightarrow>
          (case connLoop k c (ConnectionAll data) m of
             Inl e \<Rightarrow> Inl e
           | Inr m' \<Rightarrow> Inr \<lparr>cfg = c, vms = fmmap fillVM m'\<rparr>))"

section \<open>Connectivity verification\<close>

subsection \<open>Overlay objects and the collaborators\<close>

text \<open>
  The overlay types belong to the fabric API as well. Of an attachment the engine reads its
  name, \<open>Spec.Connection\<close> and what the methods \<open>VPCName()\<close> and \<open>SubnetName()\<close> return;
  of a VPC its name and, per subnet name, the declared prefix; of a VPC peering its name and
  what \<open>Spec.VPCs()\<close> returns (\<open>None\<close> for its error); of an external peering its name and
  the four parts of \<open>Spec.Permit\<close> below.
\<close>

record VPCAttachment =
  Name :: string
  Connection :: string
  VPCName :: string
  SubnetName :: string

record VPCSubnet =
  Subnet :: string

record VPC =
  Name :: string
  Subnets :: "(string, VPCSubnet) fmap"

record VPCPeering =
  Name :: string
  VPCs :: "(string \<times> string) option"

record ExternalPeering =
  Name :: string
  PermitVPCName :: string
  PermitVPCSubnets :: "string list"
  PermitExternalName :: string
  PermitExternalPrefixes :: "string list"

record ServerConnectivityTestConfig =
  VPC :: bool
  VPCPing :: nat
  VPCIperf :: nat
  Ext :: bool
  ExtCurl :: bool

record Server =
  Name :: string
  VM :: VM
  ConnectedTo :: "string list"
  ConnectionType :: string
  Server :: WiringServer
  Connection :: "Connection option"
  VPCAttachment :: "VPCAttachment option"
  VPC :: "VPC option"
  Subnet :: string
  ExternalPeering :: "ExternalPeering option"
  VPCPeers :: "string list"
  Externals :: "string list"
  IP :: string

record Iperf3ReportSum =
  Bytes :: int
  BitsPerSecond :: real

record Iperf3ReportEnd =
  SumSent :: Iperf3ReportSum
  SumReceived :: Iperf3ReportSum

record Iperf3Report =
  Intervals :: "Iperf3ReportSum list"
  End :: Iperf3ReportEnd

text \<open>
  \<open>BitsPerSecond\<close> is a \<open>float64\<close> that \<open>json.Unmarshal\<close> has read from a JSON number:
  it is finite, so it is a real number, and the comparison of Go is the order of the reals.

  Four collaborators are parameters of the model.
  \<^item> \<open>ssh\<close>: the remote execution, from the server's name, the command and the timeout in
    seconds to the output and whether the error is non-nil.
  \<^item> \<open>endpoints\<close>: the method \<open>Spec.Endpoints()\<close> of a connection, of which the engine reads
    the switches and the servers (\<open>None\<close> for its error).
  \<^item> \<open>parseCIDR\<close>: \<open>net.ParseCIDR\<close> after \<open>strings.TrimSpace\<close>, giving the texts of the
    address and of the network.
  \<^item> \<open>parse\<close>: \<open>json.Unmarshal\<close> into an \<open>Iperf3Report\<close>.
  The order in which Go ranges over the map of servers is not specified: \<open>order\<close> gives
  it for each state of the map.
\<close>

type_synonym sshRun = "string \<Rightarrow> string \<Rightarrow> int \<Rightarrow> string \<times> bool"
type_synonym endpointsFn = "ConnectionSpec \<Rightarrow> (string list \<times> string list) option"
type_synonym parseCIDRFn = "string \<Rightarrow> (string \<times> string) option"
type_synonym parseIperfFn = "string \<Rightarrow> Iperf3Report option"
type_synonym rangeOrder = "(string, Server) fmap \<Rightarrow> string list"

datatype testError =
    EndpointsError string
  | SubnetNotFound string string
  | GetIPError string
  | ParseIPError string
  | SubnetMismatch string string string
  | PeeringVPCsError string
  | NotEnoughServers string string
  | NoDefaultRoute string
  | MultipleExternalPeerings string
  | UnexpectedResult
  | NilDereference

text \<open>The lines the engine logs when it leaves a server out, and when it keeps one.\<close>

datatype notice =
    SkippingNoVM string
  | SkippingMultipleServersInConnection string
  | SkippingMultipleConnections string
  | SkippingNoConnection string
  | SkippingMultipleVPCAttachments string
  | SkippingNoVPCAttachment string
  | Found string

definition ssh :: "sshRun \<Rightarrow> Server \<Rightarrow> string \<Rightarrow> int \<Rightarrow> string \<times> bool" where
  "ssh run server cmd timeout = run (Server.Name server) cmd (if timeout = 0 then 5 else timeout)"

subsection \<open>Phase B: the servers under test\<close>

text \<open>
  The loop over the connections for one server. \<open>continue serverLoop\<close> leaves the server
  out (\<open>SkipServer\<close>); a \<open>return\<close> with an error ends the run (\<open>Abort\<close>).
\<close>

datatype 'a scan = Abort testError | SkipServer notice | Done 'a

definition connectionTypeOf :: "ConnectionSpec \<Rightarrow> string \<Rightarrow> string" where
  "connectionTypeOf spec old =
     (if Unbundled spec \<noteq> None then ''unbundled''
      else if Bundled spec \<noteq> None then ''bundled''
      else if MCLAG spec \<noteq> None then ''mclag''
      else old)"

fun connScan :: "endpointsFn \<Rightarrow> Connection list \<Rightarrow> Server \<Rightarrow> Server scan" where
  "connScan endpoints [] srv = Done srv"
| "connScan endpoints (some # rest) srv =
     (if Unbundled (Spec some) = None \<and> Bundled (Spec some) = None \<and> MCLAG (Spec some) = None
      then connScan endpoints rest srv
      else (case endpoints (Spec some) of
              None \<Rightarrow> Abort (EndpointsError (Connection.Name some))
            | Some (switches, servers) \<Rightarrow>
                if length servers \<noteq> 1
                then SkipServer (SkippingMultipleServersInConnection (Server.Name srv))
                else if Server.Name srv \<notin> set servers then connScan endpoints rest srv
                else if Server.Connection srv \<noteq> None
                then SkipServer (SkippingMultipleConnections (Server.Name srv))
                else connScan endpoints rest
                       (srv\<lparr>ConnectedTo := switches, Server.Connection := Some some,
                            ConnectionType := connectionTypeOf (Spec some) (ConnectionType srv)\<rparr>)))"

text \<open>
  The loop over the VPC attachments. Its second \<open>continue\<close> has no label: it goes on
  with the next attachment, after the line about skipping the server is logged.
\<close>

fun attachScan ::
  "string \<Rightarrow> VPCAttachment list \<Rightarrow> Server \<times> notice list \<Rightarrow> Server \<times> notice list"
where
  "attachScan connName [] st = st"
| "attachScan connName (some # rest) (srv, logged) =
     (if VPCAttachment.Connection some \<noteq> connName then attachScan connName rest (srv, logged)
      else if Server.VPCAttachment srv \<noteq> None
      then attachScan connName rest
             (srv, logged @ [SkippingMultipleVPCAttachments (Server.Name srv)])
      else attachScan connName rest
             (srv\<lparr>Server.VPCAttachment := Some some, Subnet := SubnetName some\<rparr>, logged))"

fun vpcScan :: "VPCAttachment \<Rightarrow> VPC list \<Rightarrow> Server \<Rightarrow> testError + Server" where
  "vpcScan att [] srv = Inr srv"
| "vpcScan att (some # rest) srv =
     (if VPCName att \<noteq> VPC.Name some then vpcScan att rest srv
      else if fmlookup (Subnets some) (SubnetName att) = None
      then Inl (SubnetNotFound (Server.Name srv) (VPCAttachment.Name att))
      else vpcScan att rest (srv\<lparr>Server.VPC := Some some\<rparr>))"

definition ipCommand :: string where
  "ipCommand =
     ''ip a s | grep '' @ [CHR 0x27] @ ''inet 10'' @ [CHR 0x5C] @ ''.0'' @ [CHR 0x27] @
     '' | awk '' @ [CHR 0x27] @ ''/inet / {print $2}'' @ [CHR 0x27]"

definition readIP :: "sshRun \<Rightarrow> parseCIDRFn \<Rightarrow> Server \<Rightarrow> testError + Server" where
  "readIP run parseCIDR srv =
     (case ssh run srv ipCommand 0 of
        (out, err) \<Rightarrow>
          if err then Inl (GetIPError (Server.Name srv))
          else (case parseCIDR out of
                  None \<Rightarrow> Inl (ParseIPError (Server.Name srv))
                | Some (ip, ipNet) \<Rightarrow>
                    (case Server.VPC srv of
                       None \<Rightarrow> Inl NilDereference
                     | Some vpc \<Rightarrow>
                         (case fmlookup (Subnets vpc) (Subnet srv) of
                            None \<Rightarrow> Inl NilDereference
                          | Some sub \<Rightarrow>
                              if ipNet \<noteq> VPCSubnet.Subnet sub
                              then Inl (SubnetMismatch (Server.Name srv) ipNet (VPCSubnet.Subnet sub))
                              else Inr (srv\<lparr>IP := ip\<rparr>)))))"

definition newServer :: "WiringServer \<Rightarrow> VM \<Rightarrow> Server" where
  "newServer server vm =
     \<lparr>Server.Name = WiringServer.Name server, VM = vm, ConnectedTo = [], ConnectionType = [],
      Server = server, Server.Connection = None, Server.VPCAttachment = None,
      Server.VPC = None, Subnet = [], ExternalPeering = None, VPCPeers = [], Externals = [],
      IP = []\<rparr>"

text \<open>
  The body of \<open>serverLoop\<close> for one server of the wiring: an error, or the notices logged
  and the server to enter into the map, if any.
\<close>

definition checkServer ::
  "sshRun \<Rightarrow> endpointsFn \<Rightarrow> parseCIDRFn \<Rightarrow> (string, VM) fmap \<Rightarrow> Connection list
     \<Rightarrow> VPCAttachment list \<Rightarrow> VPC list \<Rightarrow> WiringServer
     \<Rightarrow> testError + (Server option \<times> notice list)"
where
  "checkServer run endpoints parseCIDR mvms conns attachments vpcList server =
     (if WiringServer.Type server = ServerTypeControl then Inr (None, [])
      else (case fmlookup mvms (WiringServer.Name server) of
              None \<Rightarrow> Inr (None, [SkippingNoVM (WiringServer.Name server)])
            | Some vm \<Rightarrow>
                (case connScan endpoints conns (newServer server vm) of
                   Abort e \<Rightarrow> Inl e
                 | SkipServer n \<Rightarrow> Inr (None, [n])
                 | Done srv \<Rightarrow>
                     (case Server.Connection srv of
                        None \<Rightarrow> Inr (None, [SkippingNoConnection (WiringServer.Name server)])
                      | Some conn \<Rightarrow>
                          (case attachScan (Connection.Name conn) attachments (srv, []) of
                             (srv1, logged) \<Rightarrow>
                               (case Server.VPCAttachment srv1 of
                                  None \<Rightarrow>
                                    Inr (None, logged @ [SkippingNoVPCAttachment (WiringServer.Name server)])
                                | Some att \<Rightarrow>
                                    (case vpcScan att vpcList srv1 of
                                       Inl e \<Rightarrow> Inl e
                                     | Inr srv2 \<Rightarrow>
                                         (case readIP run parseCIDR srv2 of
                                            Inl e \<Rightarrow> Inl e
                                          | Inr srv3 \<Rightarrow>
                                              Inr (Some srv3,
                                                   logged @ [Found (Server.Name srv3)])))))))))"

fun serverLoopB ::
  "sshRun \<Rightarrow> endpointsFn \<Rightarrow> parseCIDRFn \<Rightarrow> (string, VM) fmap \<Rightarrow> Connection list
     \<Rightarrow> VPCAttachment list \<Rightarrow> VPC list \<Rightarrow> WiringServer list
     \<Rightarrow> (string, Server) fmap \<times> notice list
     \<Rightarrow> testError + ((string, Server) fmap \<times> notice list)"
where
  "serverLoopB run endpoints parseCIDR mvms conns attachments vpcList [] st = Inr st"
| "serverLoopB run endpoints parseCIDR mvms conns attachments vpcList (server # rest) (servers, logged) =
     (case checkServer run endpoints parseCIDR mvms conns attachments vpcList server of
        Inl e \<Rightarrow> Inl e
      | Inr (found, notices) \<Rightarrow>
          serverLoopB run endpoints parseCIDR mvms conns attachments vpcList rest
            ((case found of
                None \<Rightarrow> servers
              | Some srv \<Rightarrow> fmupd (WiringServer.Name server) srv servers),
             logged @ notices))"

definition phaseB ::
  "sshRun \<Rightarrow> endpointsFn \<Rightarrow> parseCIDRFn \<Rightarrow> (string, VM) fmap \<Rightarrow> WiringData
     \<Rightarrow> VPCAttachment list \<Rightarrow> VPC list \<Rightarrow> testError + ((string, Server) fmap \<times> notice list)"
where
  "phaseB run endpoints parseCIDR mvms data attachments vpcList =
     serverLoopB run endpoints parseCIDR mvms (ConnectionAll data) attachments vpcList
       (ServerAll data) (fmempty, [])"

subsection \<open>Phase C: expected connectivity\<close>

text \<open>The servers of the map, in the order of one range over it.\<close>

definition rangeServers :: "rangeOrder \<Rightarrow> (string, Server) fmap \<Rightarrow> Server list" where
  "rangeServers order servers = List.map_filter (fmlookup servers) (order servers)"

fun vpcMembers :: "string \<Rightarrow> string \<Rightarrow> Server list \<Rightarrow> testError + (string list \<times> string list)" where
  "vpcMembers vpc1 vpc2 [] = Inr ([], [])"
| "vpcMembers vpc1 vpc2 (server # rest) =
     (case Server.VPC server of
        None \<Rightarrow> Inl NilDereference
      | Some v \<Rightarrow>
          (case vpcMembers vpc1 vpc2 rest of
             Inl e \<Rightarrow> Inl e
           | Inr (vpc1Servers, vpc2Servers) \<Rightarrow>
               Inr ((if VPC.Name v = vpc1 then [Server.Name server] else []) @ vpc1Servers,
                    (if VPC.Name v = vpc2 then [Server.Name server] else []) @ vpc2Servers)))"

definition addPeer :: "string \<Rightarrow> string \<Rightarrow> (string, Server) fmap \<Rightarrow> testError + (string, Server) fmap" where
  "addPeer a b servers =
     (case fmlookup servers a of
        None \<Rightarrow> Inl NilDereference
      | Some s \<Rightarrow>
          if b \<in> set (VPCPeers s) then Inr servers
          else Inr (fmupd a (s\<lparr>VPCPeers := VPCPeers s @ [b]\<rparr>) servers))"

fun innerPeerLoop ::
  "string \<Rightarrow> string list \<Rightarrow> (string, Server) fmap \<Rightarrow> testError + (string, Server) fmap"
where
  "innerPeerLoop server1 [] servers = Inr servers"
| "innerPeerLoop server1 (server2 # rest) servers =
     (case addPeer server1 server2 servers of
        Inl e \<Rightarrow> Inl e
      | Inr s1 \<Rightarrow>
          (case addPeer server2 server1 s1 of
             Inl e \<Rightarrow> Inl e
           | Inr s2 \<Rightarrow> innerPeerLoop server1 rest s2))"

fun outerPeerLoop ::
  "string list \<Rightarrow> string list \<Rightarrow> (string, Server) fmap \<Rightarrow> testError + (string, Server) fmap"
where
  "outerPeerLoop [] vpc2Servers servers = Inr servers"
| "outerPeerLoop (server1 # rest) vpc2Servers servers =
     (case innerPeerLoop server1 vpc2Servers servers of
        Inl e \<Rightarrow> Inl e
      | Inr s \<Rightarrow> outerPeerLoop rest vpc2Servers s)"

fun peeringLoop ::
  "rangeOrder \<Rightarrow> VPCPeering list \<Rightarrow> (string, Server) fmap \<Rightarrow> testError + (string, Server) fmap"
where
  "peeringLoop order [] servers = Inr servers"
| "peeringLoop order (peering # rest) servers =
     (case VPCs peering of
        None \<Rightarrow> Inl (PeeringVPCsError (VPCPeering.Name peering))
      | Some (vpc1, vpc2) \<Rightarrow>
          (case vpcMembers vpc1 vpc2 (rangeServers order servers) of
             Inl e \<Rightarrow> Inl e
           | Inr (vpc1Servers, vpc2Servers) \<Rightarrow>
               if length vpc1Servers < 1 then Inl (NotEnoughServers (VPCPeering.Name peering) vpc1)
               else if length vpc2Servers < 1 then Inl (NotEnoughServers (VPCPeering.Name peering) vpc2)
               else (case outerPeerLoop vpc1Servers vpc2Servers servers of
                       Inl e \<Rightarrow> Inl e
                     | Inr s \<Rightarrow> peeringLoop order rest s)))"

text \<open>
  The external peerings. The servers are pointers: what the loop writes to one stays in
  the map, here by an update at the key under which the range found it.
\<close>

fun subnetLoop :: "ExternalPeering \<Rightarrow> string list \<Rightarrow> Server \<Rightarrow> testError + Server" where
  "subnetLoop peering [] server = Inr server"
| "subnetLoop peering (subnet # rest) server =
     (if Subnet server \<noteq> subnet then subnetLoop peering rest server
      else if PermitExternalName peering \<notin> set (Externals server) then
        (if ExternalPeering server \<noteq> None
         then Inl (MultipleExternalPeerings (Server.Name server))
         else subnetLoop peering rest
                (server\<lparr>ExternalPeering := Some peering,
                        Externals := Externals server @ [PermitExternalName peering]\<rparr>))
      else subnetLoop peering rest server)"

fun externalServerLoop ::
  "ExternalPeering \<Rightarrow> string list \<Rightarrow> (string, Server) fmap \<Rightarrow> testError + (string, Server) fmap"
where
  "externalServerLoop peering [] servers = Inr servers"
| "externalServerLoop peering (key # rest) servers =
     (case fmlookup servers key of
        None \<Rightarrow> externalServerLoop peering rest servers
      | Some server \<Rightarrow>
          (case Server.VPC server of
             None \<Rightarrow> Inl NilDereference
           | Some v \<Rightarrow>
               if VPC.Name v \<noteq> PermitVPCName peering
               then externalServerLoop peering rest servers
               else (case subnetLoop peering (PermitVPCSubnets peering) server of
                       Inl e \<Rightarrow> Inl e
                     | Inr server' \<Rightarrow>
                         externalServerLoop peering rest (fmupd key server' servers))))"

fun externalLoop ::
  "rangeOrder \<Rightarrow> ExternalPeering list \<Rightarrow> (string, Server) fmap \<Rightarrow> testError + (string, Server) fmap"
where
  "externalLoop order [] servers = Inr servers"
| "externalLoop order (peering # rest) servers =
     (if ''0.0.0.0/0'' \<notin> set (PermitExternalPrefixes peering)
      then Inl (NoDefaultRoute (ExternalPeering.Name peering))
      else (case externalServerLoop peering (order servers) servers of
              Inl e \<Rightarrow> Inl e
            | Inr s \<Rightarrow> externalLoop order rest s))"

definition phaseC ::
  "rangeOrder \<Rightarrow> VPCPeering list \<Rightarrow> ExternalPeering list \<Rightarrow> (string, Server) fmap
     \<Rightarrow> testError + (string, Server) fmap"
where
  "phaseC order peerings externals servers =
     (case peeringLoop order peerings servers of
        Inl e \<Rightarrow> Inl e
      | Inr s \<Rightarrow> externalLoop order externals s)"

subsection \<open>Phase D: the checks\<close>

text \<open>
  The ping check of one pair: \<open>out\<close> and \<open>err\<close> are what \<open>ssh\<close> returned for the ping
  command, \<open>passed\<close> the flag of the pair, which the check lowers or leaves.
\<close>

definition pingCheck :: "bool \<Rightarrow> string \<Rightarrow> bool \<Rightarrow> bool \<Rightarrow> testError + bool" where
  "pingCheck peerConnected out err passed =
     (if peerConnected \<and> err then Inr False
      else if \<not> peerConnected \<and> \<not> err then Inr False
      else if \<not> peerConnected \<and> err \<and> length out > 0
              \<and> \<not> Contains out ''0 received, 100% packet loss'' then Inr False
      else if peerConnected then Inr passed
      else if \<not> peerConnected then Inr passed
      else Inl UnexpectedResult)"

text \<open>
  The throughput check runs two goroutines that share the flag \<open>passed\<close> and only ever
  lower it; both have ended when the flag is read. The flag is then what it was, lowered
  if either of them lowered it, whatever their interleaving: the model runs the server
  side first.
\<close>

definition iperfServer :: "string \<times> bool \<Rightarrow> bool \<Rightarrow> bool" where
  "iperfServer res passed = (if snd res then False else passed)"

definition iperfClient :: "parseIperfFn \<Rightarrow> string \<times> bool \<Rightarrow> bool \<Rightarrow> bool" where
  "iperfClient parse res passed =
     (if snd res then False
      else (case parse (fst res) of
              None \<Rightarrow> False
            | Some report \<Rightarrow>
                if BitsPerSecond (SumSent (End report)) < 8500000000 then False else passed))"

definition pingCommand :: "ServerConnectivityTestConfig \<Rightarrow> string \<Rightarrow> string" where
  "pingCommand tc ip = ''ping -c '' @ showNat (VPCPing tc) @ '' -W 1 '' @ ip"

definition iperfClientCommand :: "ServerConnectivityTestConfig \<Rightarrow> string \<Rightarrow> string" where
  "iperfClientCommand tc ip =
     ''toolbox -q timeout '' @ showNat (VPCIperf tc + 5) @ '' iperf3 -J -c '' @ ip @
     '' -t '' @ showNat (VPCIperf tc)"

definition iperfServerCommand :: "ServerConnectivityTestConfig \<Rightarrow> string" where
  "iperfServerCommand tc = ''toolbox -q timeout '' @ showNat (VPCIperf tc + 7) @ '' iperf3 -s -1''"

text \<open>The checks of one pair of servers, from \<open>passed := true\<close> to the final flag.\<close>

definition pairCheck ::
  "ServerConnectivityTestConfig \<Rightarrow> sshRun \<Rightarrow> parseIperfFn \<Rightarrow> Server \<Rightarrow> Server \<Rightarrow> testError + bool"
where
  "pairCheck tc run parse server peer =
     (let peerConnected = (Server.Name peer \<in> set (VPCPeers server)) in
      case (if VPCPing tc > 0
            then (case ssh run server (pingCommand tc (IP peer)) (int (VPCPing tc) + 5) of
                    (out, err) \<Rightarrow> pingCheck peerConnected out err True)
            else Inr True) of
        Inl e \<Rightarrow> Inl e
      | Inr passed \<Rightarrow>
          if peerConnected \<and> VPCIperf tc > 0
          then Inr (iperfClient parse
                      (ssh run server (iperfClientCommand tc (IP peer)) (int (VPCIperf tc) + 10))
                      (iperfServer
                         (ssh run peer (iperfServerCommand tc) (int (VPCIperf tc) + 10))
                         passed))
          else Inr passed)"

fun peerLoop ::
  "ServerConnectivityTestConfig \<Rightarrow> sshRun \<Rightarrow> parseIperfFn \<Rightarrow> (string, Server) fmap \<Rightarrow> Server
     \<Rightarrow> string list \<Rightarrow> nat \<times> nat \<Rightarrow> testError + (nat \<times> nat)"
where
  "peerLoop tc run parse servers server [] totals = Inr totals"
| "peerLoop tc run parse servers server (vpcPeer # rest) (totalTested, totalPassed) =
     (if Server.Name server = vpcPeer
      then peerLoop tc run parse servers server rest (totalTested, totalPassed)
      else (case fmlookup servers vpcPeer of
              None \<Rightarrow> Inl NilDereference
            | Some peer \<Rightarrow>
                (case pairCheck tc run parse server peer of
                   Inl e \<Rightarrow> Inl e
                 | Inr passed \<Rightarrow>
                     peerLoop tc run parse servers server rest
                       (totalTested + 1, if passed then totalPassed + 1 else totalPassed))))"

definition curlCommand :: string where
  "curlCommand = ''toolbox -q timeout 5 curl --insecure https://8.8.8.8''"

definition curlCheck :: "string \<times> bool \<Rightarrow> bool" where
  "curlCheck res = (\<not> snd res \<and> Contains (fst res) ''302 Moved'')"

fun externalChecks ::
  "ServerConnectivityTestConfig \<Rightarrow> sshRun \<Rightarrow> Server \<Rightarrow> string list \<Rightarrow> nat \<times> nat \<Rightarrow> nat \<times> nat"
where
  "externalChecks tc run server [] totals = totals"
| "externalChecks tc run server (external # rest) (totalTested, totalPassed) =
     (if ExtCurl tc
      then externalChecks tc run server rest
             (totalTested + 1,
              if curlCheck (ssh run server curlCommand 10) then totalPassed + 1 else totalPassed)
      else externalChecks tc run server rest (totalTested, totalPassed))"

fun checkLoop ::
  "ServerConnectivityTestConfig \<Rightarrow> sshRun \<Rightarrow> parseIperfFn \<Rightarrow> string list \<Rightarrow> string list
     \<Rightarrow> (string, Server) fmap \<Rightarrow> nat \<times> nat \<Rightarrow> testError + (nat \<times> nat)"
where
  "checkLoop tc run parse sortedServer [] servers totals = Inr totals"
| "checkLoop tc run parse sortedServer (name # rest) servers totals =
     (case fmlookup servers name of
        None \<Rightarrow> Inl NilDereference
      | Some server0 \<Rightarrow>
          (let server = server0\<lparr>VPCPeers := sort (VPCPeers server0)\<rparr>;
               servers' = fmupd name server servers
           in case (if ServerConnectivityTestConfig.VPC tc
                    then peerLoop tc run parse servers' server sortedServer totals
                    else Inr totals) of
                Inl e \<Rightarrow> Inl e
              | Inr totals1 \<Rightarrow>
                  checkLoop tc run parse sortedServer rest servers'
                    (if Ext tc then externalChecks tc run server (Externals server) totals1
                     else totals1)))"

definition phaseD ::
  "ServerConnectivityTestConfig \<Rightarrow> sshRun \<Rightarrow> parseIperfFn \<Rightarrow> string list
     \<Rightarrow> (string, Server) fmap \<Rightarrow> testError + (nat \<times> nat)"
where
  "phaseD tc run parse sortedServer servers = checkLoop tc run parse sortedServer sortedServer servers (0, 0)"

subsection \<open>The run\<close>

text \<open>
  \<open>TestServerConnectivity\<close> after its check of the agents: the run ends with an error, or
  with the two counters; the process exits with status 1 when the counters differ.
\<close>

definition TestServerConnectivity ::
  "ServerConnectivityTestConfig \<Rightarrow> sshRun \<Rightarrow> endpointsFn \<Rightarrow> parseCIDRFn \<Rightarrow> parseIperfFn
     \<Rightarrow> rangeOrder \<Rightarrow> (string, VM) fmap \<Rightarrow> WiringData \<Rightarrow> VPCAttachment list \<Rightarrow> VPC list
     \<Rightarrow> VPCPeering list \<Rightarrow> ExternalPeering list \<Rightarrow> testError + (nat \<times> nat)"
where
  "TestServerConnectivity tc run endpoints parseCIDR parse order mvms data attachments vpcList
       peerings externals =
     (case phaseB run endpoints parseCIDR mvms data attachments vpcList of
        Inl e \<Rightarrow> Inl e
      | Inr (servers, logged) \<Rightarrow>
          (let sortedServer = sort (map Server.Name (rangeServers order servers)) in
           case phaseC order peerings externals servers of
             Inl e \<Rightarrow> Inl e
           | Inr servers' \<Rightarrow> phaseD tc run parse sortedServer servers'))"

definition exitStatus :: "nat \<times> nat \<Rightarrow> nat" where
  "exitStatus totals = (if fst totals - snd totals > 0 then 1 else 0)"

section \<open>Notions of the specification\<close>

text \<open>
  A dense interface map, in the words of the specification: every index from 0 to the
  maximum assigned index is present. A map without an assigned index has no maximum, and
  nothing is asked of it.
\<close>

definition dense :: "(int, VMInterface) fmap \<Rightarrow> bool" where
  "dense ifs =
     (fmdom ifs \<noteq> {||} \<longrightarrow> (\<forall>i \<in> set [0 .. fMax (fmdom ifs)]. i |\<in>| fmdom ifs))"

text \<open>
  The devices that get a VM, in the order of the passes: the control servers, the plain
  servers, the switches.
\<close>

definition controlNames :: "WiringData \<Rightarrow> string list" where
  "controlNames data =
     map WiringServer.Name (filter (\<lambda>s. WiringServer.Type s = ServerTypeControl) (ServerAll data))"

definition serverNames :: "WiringData \<Rightarrow> string list" where
  "serverNames data =
     map WiringServer.Name (filter (\<lambda>s. WiringServer.Type s = ServerTypeDefault) (ServerAll data))"

definition switchNames :: "WiringData \<Rightarrow> string list" where
  "switchNames data = map WiringSwitch.Name (SwitchAll data)"

definition deviceNames :: "WiringData \<Rightarrow> string list" where
  "deviceNames data = controlNames data @ serverNames data @ switchNames data"

text \<open>The same devices with the type of the VM each of them gets.\<close>

definition devices :: "WiringData \<Rightarrow> (string \<times> VMType) list" where
  "devices data =
     map (\<lambda>n. (n, VMTypeControl)) (controlNames data)
     @ map (\<lambda>n. (n, VMTypeServer)) (serverNames data)
     @ map (\<lambda>n. (n, VMTypeSwitchVS)) (switchNames data)"

subsection \<open>Notions used in the proofs\<close>

text \<open>
  The three loops that create the VMs are one loop over the names they select, with
  the VM to create as a parameter.
\<close>

fun registerLoop ::
  "(string \<Rightarrow> int \<Rightarrow> VM) \<Rightarrow> string list \<Rightarrow> (string, VM) fmap \<Rightarrow> int
     \<Rightarrow> error + ((string, VM) fmap \<times> int)"
where
  "registerLoop mk [] m vmID = Inr (m, vmID)"
| "registerLoop mk (n # ns) m vmID =
     (if fmlookup m n \<noteq> None then Inl (DuplicateName n)
      else registerLoop mk ns (fmupd n (mk n vmID) m) (vmID + 1))"

definition controlVM :: "Consts \<Rightarrow> string \<Rightarrow> int \<Rightarrow> VM" where
  "controlVM k n vmID =
     \<lparr>ID = vmID, VM.Name = n, Type = VMTypeControl,
      Interfaces = hostInterface (controlNetdev k n vmID)\<rparr>"

definition serverVM :: "Consts \<Rightarrow> string \<Rightarrow> int \<Rightarrow> VM" where
  "serverVM k n vmID =
     \<lparr>ID = vmID, VM.Name = n, Type = VMTypeServer,
      Interfaces = hostInterface (serverNetdev k n vmID)\<rparr>"

definition switchVM :: "string \<Rightarrow> int \<Rightarrow> VM" where
  "switchVM n vmID = \<lparr>ID = vmID, VM.Name = n, Type = VMTypeSwitchVS, Interfaces = fmempty\<rparr>"

text \<open>
  \<open>registered devs m\<close>: the registry \<open>m\<close> holds exactly the devices \<open>devs\<close>, the one at
  position \<open>i\<close> with identifier \<open>i\<close>, its name and its type.
\<close>

definition registered :: "(string \<times> VMType) list \<Rightarrow> (string, VM) fmap \<Rightarrow> bool" where
  "registered devs m =
     (fmdom' m = fst ` set devs
      \<and> (\<forall>i < length devs. \<exists>vm. fmlookup m (fst (devs ! i)) = Some vm
            \<and> ID vm = int i \<and> VM.Name vm = fst (devs ! i) \<and> VM.Type vm = snd (devs ! i)))"

text \<open>
  \<open>keeps m m'\<close>: the registry \<open>m'\<close> has the VMs of \<open>m\<close>, each with its identifier, name
  and type and with every interface it had.
\<close>

definition keeps :: "(string, VM) fmap \<Rightarrow> (string, VM) fmap \<Rightarrow> bool" where
  "keeps m m' =
     (fmdom' m' = fmdom' m
      \<and> (\<forall>n vm. fmlookup m n = Some vm \<longrightarrow>
            (\<exists>vm'. fmlookup m' n = Some vm' \<and> ID vm' = ID vm \<and> VM.Name vm' = VM.Name vm
               \<and> VM.Type vm' = VM.Type vm
               \<and> (\<forall>i x. fmlookup (Interfaces vm) i = Some x
                     \<longrightarrow> fmlookup (Interfaces vm') i = Some x))))"

text \<open>
  The interface of a link between two VMs on the software transport: the descriptor
  names the connection and two UDP ports, after \<open>udp=\<close> the one derived from the VM and
  the index of the interface itself, after \<open>localaddr=\<close> the one derived from the VM and
  the index at the other end of the link.
\<close>

definition pairedInterface :: "string \<Rightarrow> int \<Rightarrow> int \<Rightarrow> VMInterface" where
  "pairedInterface conn own other =
     \<lparr>VMInterface.Connection = conn,
      Netdev = ''socket,udp=127.0.0.1:'' @ showInt own @ '',localaddr=127.0.0.1:'' @ showInt other,
      Passthrough = []\<rparr>"

text \<open>
  \<open>linked k conn a b m\<close>: in the registry \<open>m\<close> the ports \<open>a\<close> and \<open>b\<close> are the two ends of
  a link of the connection \<open>conn\<close>, each with the paired interface.
\<close>

definition linked :: "Consts \<Rightarrow> string \<Rightarrow> IPort \<Rightarrow> IPort \<Rightarrow> (string, VM) fmap \<Rightarrow> bool" where
  "linked k conn a b m =
     (\<exists>vmA vmB iA iB.
        fmlookup m (DeviceName a) = Some vmA \<and> fmlookup m (DeviceName b) = Some vmB
        \<and> portIdForName (LocalPortName a) = Inr iA \<and> portIdForName (LocalPortName b) = Inr iB
        \<and> fmlookup (Interfaces vmA) iA
            = Some (pairedInterface conn (ifacePortFor k vmA iA) (ifacePortFor k vmB iB))
        \<and> fmlookup (Interfaces vmB) iB
            = Some (pairedInterface conn (ifacePortFor k vmB iB) (ifacePortFor k vmA iA)))"

text \<open>
  \<open>fresh k s\<close>: the server \<open>s\<close> as Phase B enters it into the map under the key \<open>k\<close>:
  named \<open>k\<close>, without expected peers, externals or external peering.
\<close>

definition fresh :: "string \<Rightarrow> Server \<Rightarrow> bool" where
  "fresh k s =
     (Server.Name s = k \<and> VPCPeers s = [] \<and> Externals s = [] \<and> ExternalPeering s = None)"

text \<open>
  For the engine: the set of expected peers of a server of the map, and the two
  properties of these sets that the derivation of the expected connectivity maintains.
\<close>

definition peersOf :: "(string, Server) fmap \<Rightarrow> string \<Rightarrow> string set" where
  "peersOf servers a = (case fmlookup servers a of None \<Rightarrow> {} | Some s \<Rightarrow> set (VPCPeers s))"

definition peersDistinct :: "(string, Server) fmap \<Rightarrow> bool" where
  "peersDistinct servers = (\<forall>a sa. fmlookup servers a = Some sa \<longrightarrow> distinct (VPCPeers sa))"

definition peersSymmetric :: "(string, Server) fmap \<Rightarrow> bool" where
  "peersSymmetric servers =
     (\<forall>a \<in> fmdom' servers. \<forall>b \<in> fmdom' servers. b \<in> peersOf servers a \<longleftrightarrow> a \<in> peersOf servers b)"

text \<open>
  \<open>onlyPeers m m'\<close>: the map \<open>m'\<close> has the servers of \<open>m\<close>, each as it was but for its
  expected peers.
\<close>

definition onlyPeers :: "(string, Server) fmap \<Rightarrow> (string, Server) fmap \<Rightarrow> bool" where
  "onlyPeers m m' =
     (\<forall>k. rel_option (\<lambda>s s'. \<exists>p. s' = s\<lparr>VPCPeers := p\<rparr>) (fmlookup m k) (fmlookup m' k))"

text \<open>
  \<open>permits peering server\<close>: the permit of the external peering matches the VPC and the
  subnet of the server, which is the test of the two inner loops over the external
  peerings.
\<close>

definition permits :: "ExternalPeering \<Rightarrow> Server \<Rightarrow> bool" where
  "permits peering server =
     (case Server.VPC server of
        None \<Rightarrow> False
      | Some v \<Rightarrow> VPC.Name v = PermitVPCName peering
          \<and> Subnet server \<in> set (PermitVPCSubnets peering))"

text \<open>
  \<open>externalsOK\<close>: every server has no external, or one external and an external peering.
  \<open>externalsGrow m m'\<close>: the map \<open>m'\<close> has the servers of \<open>m\<close>, each as it was but for
  its external peering and its externals, of which it lost none.
\<close>

definition externalsOK :: "(string, Server) fmap \<Rightarrow> bool" where
  "externalsOK servers =
     (\<forall>k s. fmlookup servers k = Some s \<longrightarrow>
        Externals s = [] \<or> (\<exists>n. Externals s = [n] \<and> ExternalPeering s \<noteq> None))"

definition extCore :: "Server \<Rightarrow> Server" where
  "extCore s = s\<lparr>ExternalPeering := None, Externals := []\<rparr>"

definition externalsGrow :: "(string, Server) fmap \<Rightarrow> (string, Server) fmap \<Rightarrow> bool" where
  "externalsGrow m m' =
     (\<forall>k. rel_option
            (\<lambda>s s'. extCore s' = extCore s \<and> set (Externals s) \<subseteq> set (Externals s'))
            (fmlookup m k) (fmlookup m' k))"

section \<open>Example inputs\<close>

text \<open>Concrete inputs on which the theorems below are instantiated.\<close>

definition exConsts :: Consts where
  "exConsts = \<lparr>SSH_PORT_BASE = 22000, KUBE_PORT = 16443, REGISTRY_PORT = 31000,
                IF_PORT_BASE = 30000, IF_PORT_VM_ID_MULT = 100, IF_PORT_PORT_ID_MULT = 1\<rparr>"

definition exConfig :: Config where
  "exConfig = \<lparr>Links = fmempty\<rparr>"

definition exPort :: "string \<Rightarrow> string \<Rightarrow> IPort" where
  "exPort device port = \<lparr>DeviceName = device, LocalPortName = port, PortName = device @ ''/'' @ port\<rparr>"

definition noSpec :: ConnectionSpec where
  "noSpec = \<lparr>Unbundled = None, Bundled = None, Management = None, MCLAG = None,
             MCLAGDomain = None, NAT = None, Fabric = None, VPCLoopback = None\<rparr>"







definition exServers :: "WiringServer list" where
  "exServers =
     [\<lparr>WiringServer.Name = ''control-1'', Type = ServerTypeControl\<rparr>,
      \<lparr>WiringServer.Name = ''server-1'', Type = ServerTypeDefault\<rparr>]"

definition exSwitches :: "WiringSwitch list" where
  "exSwitches = [\<lparr>WiringSwitch.Name = ''switch-1''\<rparr>]"

definition exUnbundled :: Connection where
  "exUnbundled =
     \<lparr>Connection.Name = ''server-1--unbundled--switch-1'',
      Spec = noSpec\<lparr>Unbundled :=
        Some (exPort ''server-1'' ''port3'', exPort ''switch-1'' ''Ethernet4'')\<rparr>\<rparr>"

definition exNAT :: Connection where
  "exNAT =
     \<lparr>Connection.Name = ''switch-1--nat'',
      Spec = noSpec\<lparr>NAT := Some (exPort ''switch-1'' ''Ethernet0'')\<rparr>\<rparr>"

definition exWiring :: WiringData where
  "exWiring = \<lparr>ServerAll = exServers, SwitchAll = exSwitches, ConnectionAll = [exUnbundled]\<rparr>"

text \<open>The same devices without any connection: the switch has no link.\<close>

definition exWiringBare :: WiringData where
  "exWiringBare = \<lparr>ServerAll = exServers, SwitchAll = exSwitches, ConnectionAll = []\<rparr>"

definition exWiringNAT :: WiringData where
  "exWiringNAT = \<lparr>ServerAll = exServers, SwitchAll = exSwitches, ConnectionAll = [exNAT]\<rparr>"

definition exInterfaces :: "(int, VMInterface) fmap" where
  "exInterfaces =
     fmupd 3 \<lparr>VMInterface.Connection = ''c'', Netdev = ''n'', Passthrough = []\<rparr> fmempty"

text \<open>An interface map with one negative index, that of the port name \<open>Ethernet-3\<close>.\<close>

definition exNegative :: "(int, VMInterface) fmap" where
  "exNegative =
     fmupd (- 2) \<lparr>VMInterface.Connection = ''c'', Netdev = ''n'', Passthrough = []\<rparr> fmempty"






text \<open>An overlay on the example wiring: one server, attached twice to its connection.\<close>

definition exEndpoints :: endpointsFn where
  "exEndpoints spec =
     (case Unbundled spec of
        Some (server, switch) \<Rightarrow> Some ([DeviceName switch], [DeviceName server])
      | None \<Rightarrow> None)"

definition exVMs :: "(string, VM) fmap" where
  "exVMs =
     fmupd ''server-1''
       \<lparr>ID = 1, VM.Name = ''server-1'', Type = VMTypeServer, Interfaces = fmempty\<rparr> fmempty"

definition exAttach1 :: VPCAttachment where
  "exAttach1 =
     \<lparr>VPCAttachment.Name = ''vpc-1--server-1'',
      Connection = ''server-1--unbundled--switch-1'', VPCName = ''vpc-1'',
      SubnetName = ''default''\<rparr>"

definition exAttach2 :: VPCAttachment where
  "exAttach2 =
     \<lparr>VPCAttachment.Name = ''vpc-2--server-1'',
      Connection = ''server-1--unbundled--switch-1'', VPCName = ''vpc-2'',
      SubnetName = ''default''\<rparr>"

definition exVPC1 :: VPC where
  "exVPC1 =
     \<lparr>VPC.Name = ''vpc-1'',
      Subnets = fmupd ''default'' \<lparr>VPCSubnet.Subnet = ''10.0.1.0/24''\<rparr> fmempty\<rparr>"

definition exVPC2 :: VPC where
  "exVPC2 =
     \<lparr>VPC.Name = ''vpc-2'',
      Subnets = fmupd ''default'' \<lparr>VPCSubnet.Subnet = ''10.0.2.0/24''\<rparr> fmempty\<rparr>"

definition exRun :: sshRun where
  "exRun host cmd timeout =
     (if cmd = ipCommand then (''10.0.1.10/24'', False) else (''302 Moved'', False))"

definition exParseCIDR :: parseCIDRFn where
  "exParseCIDR out =
     (if out = ''10.0.1.10/24'' then Some (''10.0.1.10'', ''10.0.1.0/24'') else None)"

definition exOrder :: rangeOrder where
  "exOrder servers = sorted_list_of_fset (fmdom servers)"

definition exExternal1 :: ExternalPeering where
  "exExternal1 =
     \<lparr>ExternalPeering.Name = ''vpc-1--ext-1'', PermitVPCName = ''vpc-1'',
      PermitVPCSubnets = [''default''], PermitExternalName = ''ext-1'',
      PermitExternalPrefixes = [''0.0.0.0/0'']\<rparr>"

definition exExternal1b :: ExternalPeering where
  "exExternal1b =
     \<lparr>ExternalPeering.Name = ''vpc-1--ext-1--again'', PermitVPCName = ''vpc-1'',
      PermitVPCSubnets = [''default''], PermitExternalName = ''ext-1'',
      PermitExternalPrefixes = [''0.0.0.0/0'']\<rparr>"

definition exExternal2 :: ExternalPeering where
  "exExternal2 =
     \<lparr>ExternalPeering.Name = ''vpc-1--ext-2'', PermitVPCName = ''vpc-1'',
      PermitVPCSubnets = [''default''], PermitExternalName = ''ext-2'',
      PermitExternalPrefixes = [''0.0.0.0/0'']\<rparr>"

definition exCurlOnly :: ServerConnectivityTestConfig where
  "exCurlOnly =
     \<lparr>ServerConnectivityTestConfig.VPC = False, VPCPing = 0, VPCIperf = 0, Ext = True,
      ExtCurl = True\<rparr>"

text \<open>
  An overlay with two servers, each on its own connection and in its own VPC, and three
  peering objects that relate the two VPCs: two of them the same way, one the other way.
\<close>

definition exUnbundled2 :: Connection where
  "exUnbundled2 =
     \<lparr>Connection.Name = ''server-2--unbundled--switch-1'',
      Spec = noSpec\<lparr>Unbundled :=
        Some (exPort ''server-2'' ''port3'', exPort ''switch-1'' ''Ethernet5'')\<rparr>\<rparr>"

definition exWiring2 :: WiringData where
  "exWiring2 =
     \<lparr>ServerAll = exServers @ [\<lparr>WiringServer.Name = ''server-2'', Type = ServerTypeDefault\<rparr>],
      SwitchAll = exSwitches, ConnectionAll = [exUnbundled, exUnbundled2]\<rparr>"

definition exVMs2 :: "(string, VM) fmap" where
  "exVMs2 =
     fmupd ''server-2''
       \<lparr>ID = 2, VM.Name = ''server-2'', Type = VMTypeServer, Interfaces = fmempty\<rparr> exVMs"

definition exAttach3 :: VPCAttachment where
  "exAttach3 =
     \<lparr>VPCAttachment.Name = ''vpc-2--server-2'',
      Connection = ''server-2--unbundled--switch-1'', VPCName = ''vpc-2'',
      SubnetName = ''default''\<rparr>"

definition exRun2 :: sshRun where
  "exRun2 host cmd timeout =
     (if cmd = ipCommand
      then (if host = ''server-1'' then (''10.0.1.10/24'', False) else (''10.0.2.10/24'', False))
      else (''302 Moved'', False))"

definition exParseCIDR2 :: parseCIDRFn where
  "exParseCIDR2 out =
     (if out = ''10.0.1.10/24'' then Some (''10.0.1.10'', ''10.0.1.0/24'')
      else if out = ''10.0.2.10/24'' then Some (''10.0.2.10'', ''10.0.2.0/24'')
      else None)"

definition exPeering12 :: VPCPeering where
  "exPeering12 = \<lparr>VPCPeering.Name = ''vpc-1--vpc-2'', VPCs = Some (''vpc-1'', ''vpc-2'')\<rparr>"

definition exPeering12b :: VPCPeering where
  "exPeering12b = \<lparr>VPCPeering.Name = ''vpc-1--vpc-2--again'', VPCs = Some (''vpc-1'', ''vpc-2'')\<rparr>"

definition exPeering21 :: VPCPeering where
  "exPeering21 = \<lparr>VPCPeering.Name = ''vpc-2--vpc-1'', VPCs = Some (''vpc-2'', ''vpc-1'')\<rparr>"

section \<open>Port names: properties\<close>

declare showPos.simps [simp del]

lemma of_char_digitChar: "0 \<le> d \<Longrightarrow> d < 10 \<Longrightarrow> (of_char (digitChar d) :: int) = 48 + d"
  by (simp add: digitChar_def)

lemma digitChar_eqI:
  "0 \<le> d \<Longrightarrow> d < 10 \<Longrightarrow> (of_char ch :: int) = 48 + d \<Longrightarrow> digitChar d = ch"
  using of_char_digitChar [of d] of_char_eq_iff [of "digitChar d" ch, where ?'a = int] by simp

lemma digitChar_simps:
  "digitChar 0 = CHR ''0''" "digitChar 1 = CHR ''1''" "digitChar 2 = CHR ''2''"
  "digitChar 3 = CHR ''3''" "digitChar 4 = CHR ''4''" "digitChar 5 = CHR ''5''"
  "digitChar 6 = CHR ''6''" "digitChar 7 = CHR ''7''" "digitChar 8 = CHR ''8''"
  "digitChar 9 = CHR ''9''"
  by (rule digitChar_eqI; simp)+

lemma isDigit_digitChar: "0 \<le> d \<Longrightarrow> d < 10 \<Longrightarrow> isDigit (digitChar d)"
  by (simp add: isDigit_def of_char_digitChar)

lemma digitVal_digitChar: "0 \<le> d \<Longrightarrow> d < 10 \<Longrightarrow> digitVal (digitChar d) = d"
  by (simp add: digitVal_def of_char_digitChar)

lemma digitChar_not_sign:
  assumes d: "0 \<le> d" "d < 10"
  shows "digitChar d \<noteq> CHR ''-'' \<and> digitChar d \<noteq> CHR ''+''"
proof -
  have "(of_char (digitChar d) :: int) \<noteq> of_char CHR ''-''"
    and "(of_char (digitChar d) :: int) \<noteq> of_char CHR ''+''"
    using d by (simp_all add: of_char_digitChar)
  then show ?thesis by auto
qed

lemma digitsVal_append:
  "digitsVal a (xs @ ys) = (case digitsVal a xs of None \<Rightarrow> None | Some v \<Rightarrow> digitsVal v ys)"
  by (induction xs arbitrary: a) auto

text \<open>Reading back what \<open>%d\<close> printed gives the number.\<close>

lemma digitsVal_showPos: "0 \<le> n \<Longrightarrow> digitsVal 0 (showPos n) = Some n"
proof (induction n rule: showPos.induct)
  case (1 n)
  show ?case
  proof (cases "n < 10")
    case True
    with 1(2) show ?thesis
      by (subst showPos.simps) (simp add: isDigit_digitChar digitVal_digitChar)
  next
    case False
    have m: "0 \<le> n mod 10" "n mod 10 < 10" by simp_all
    from False 1 have ih: "digitsVal 0 (showPos (n div 10)) = Some (n div 10)" by simp
    show ?thesis
      using False ih m
      by (subst showPos.simps)
        (simp add: digitsVal_append isDigit_digitChar digitVal_digitChar)
  qed
qed

lemma showPos_head: "0 \<le> n \<Longrightarrow> \<exists>d cs. 0 \<le> d \<and> d < 10 \<and> showPos n = digitChar d # cs"
proof (induction n rule: showPos.induct)
  case (1 n)
  show ?case
  proof (cases "n < 10")
    case True
    with 1(2) show ?thesis by (subst showPos.simps) auto
  next
    case False
    then have "0 \<le> n div 10" by simp
    with False 1(1) obtain d cs where "0 \<le> d" "d < 10" "showPos (n div 10) = digitChar d # cs"
      by blast
    with False show ?thesis by (subst showPos.simps) auto
  qed
qed

lemma Atoi_showPos:
  assumes "0 \<le> n"
  shows "Atoi (showPos n) = (if n \<le> maxInt then Inr n else Inl NumError)"
proof -
  obtain d cs where d: "0 \<le> d" "d < 10" and s: "showPos n = digitChar d # cs"
    using showPos_head [OF assms] by blast
  have dv: "digitsVal 0 (digitChar d # cs) = Some n"
    using digitsVal_showPos [OF assms] s by simp
  have "minInt \<le> n" using assms by (simp add: minInt_def)
  then show ?thesis
    using digitChar_not_sign [OF d] dv
    by (simp add: Atoi_def s Let_def del: digitsVal.simps)
qed

lemma Atoi_minus_showPos:
  assumes "0 < n"
  shows "Atoi (CHR ''-'' # showPos n) = (if minInt \<le> - n then Inr (- n) else Inl NumError)"
proof -
  have n0: "0 \<le> n" using assms by simp
  obtain d cs where s: "showPos n = digitChar d # cs"
    using showPos_head [OF n0] by blast
  have dv: "digitsVal 0 (showPos n) = Some n"
    using digitsVal_showPos [OF n0] by simp
  have ne: "showPos n \<noteq> []" using s by simp
  have "- n \<le> maxInt" using assms by (simp add: maxInt_def)
  then show ?thesis
    using dv ne by (simp add: Atoi_def Let_def)
qed

lemma Atoi_showInt:
  "Atoi (showInt N) = (if minInt \<le> N \<and> N \<le> maxInt then Inr N else Inl NumError)"
proof (cases "N < 0")
  case True
  then have "maxInt \<ge> N" by (simp add: maxInt_def)
  with True show ?thesis
    using Atoi_minus_showPos [of "- N"] by (simp add: showInt_def)
next
  case False
  then have "minInt \<le> N" by (simp add: minInt_def)
  with False show ?thesis
    using Atoi_showPos [of N] by (simp add: showInt_def)
qed

lemma HasPrefix_append [simp]: "HasPrefix (pre @ s) pre"
  by (simp add: HasPrefix_def)

lemma CutPrefix_append [simp]: "CutPrefix (pre @ s) pre = s"
  by (simp add: CutPrefix_def)

lemma HasPrefix_iff: "HasPrefix s pre \<longleftrightarrow> (\<exists>r. s = pre @ r)"
  by (metis HasPrefix_def append_eq_conv_conj HasPrefix_append)

lemma HasPrefix_CutPrefix: "HasPrefix s pre \<Longrightarrow> s = pre @ CutPrefix s pre"
  by (metis CutPrefix_append HasPrefix_iff)

lemma wrap64_id: "minInt \<le> x \<Longrightarrow> x \<le> maxInt \<Longrightarrow> wrap64 x = x"
  by (simp add: wrap64_def minInt_def maxInt_def)

lemma portId_Ethernet:
  "portIdForName (''Ethernet'' @ s) =
     (case Atoi s of Inl _ \<Rightarrow> Inl (PortConvError (''Ethernet'' @ s)) | Inr idx \<Rightarrow> Inr (wrap64 (idx + 1)))"
proof -
  have "\<not> HasPrefix (''Ethernet'' @ s) ''Management0''" by (simp add: HasPrefix_def)
  then show ?thesis
    unfolding portIdForName_def by (simp only: HasPrefix_append CutPrefix_append if_True if_False)
qed

lemma portId_port:
  "portIdForName (''port'' @ s) =
     (case Atoi s of Inl _ \<Rightarrow> Inl (PortConvError (''port'' @ s)) | Inr idx \<Rightarrow> Inr idx)"
proof -
  have "\<not> HasPrefix (''port'' @ s) ''Management0''" "\<not> HasPrefix (''port'' @ s) ''Ethernet''"
    by (simp_all add: HasPrefix_def)
  then show ?thesis
    unfolding portIdForName_def by (simp only: HasPrefix_append CutPrefix_append if_True if_False)
qed

lemma portId_enp2s:
  "portIdForName (''enp2s'' @ s) =
     (case Atoi s of Inl _ \<Rightarrow> Inl (PortConvError (''enp2s'' @ s)) | Inr idx \<Rightarrow> Inr idx)"
proof -
  have "\<not> HasPrefix (''enp2s'' @ s) ''Management0''" "\<not> HasPrefix (''enp2s'' @ s) ''Ethernet''"
    "\<not> HasPrefix (''enp2s'' @ s) ''port''"
    by (simp_all add: HasPrefix_def)
  then show ?thesis
    unfolding portIdForName_def by (simp only: HasPrefix_append CutPrefix_append if_True if_False)
qed

lemma portId_Inr_forms:
  assumes "portIdForName name = Inr i"
  shows "HasPrefix name ''Management0'' \<or>
     (\<exists>s n. Atoi s = Inr n \<and> (name = ''Ethernet'' @ s \<or> name = ''port'' @ s \<or> name = ''enp2s'' @ s))"
proof (cases "HasPrefix name ''Management0''")
  case True
  then show ?thesis by simp
next
  case nm: False
  have step: "\<exists>s n. Atoi s = Inr n \<and> (name = ''Ethernet'' @ s \<or> name = ''port'' @ s \<or> name = ''enp2s'' @ s)"
  proof (cases "HasPrefix name ''Ethernet''")
    case True
    with nm assms obtain n where "Atoi (CutPrefix name ''Ethernet'') = Inr n"
      unfolding portIdForName_def by (auto split: sum.splits)
    moreover have "name = ''Ethernet'' @ CutPrefix name ''Ethernet''"
      using True by (rule HasPrefix_CutPrefix)
    ultimately show ?thesis by blast
  next
    case ne: False
    show ?thesis
    proof (cases "HasPrefix name ''port''")
      case True
      with nm ne assms obtain n where "Atoi (CutPrefix name ''port'') = Inr n"
        unfolding portIdForName_def by (auto split: sum.splits)
      moreover have "name = ''port'' @ CutPrefix name ''port''"
        using True by (rule HasPrefix_CutPrefix)
      ultimately show ?thesis by blast
    next
      case np: False
      show ?thesis
      proof (cases "HasPrefix name ''enp2s''")
        case True
        with nm ne np assms obtain n where "Atoi (CutPrefix name ''enp2s'') = Inr n"
          unfolding portIdForName_def by (auto split: sum.splits)
        moreover have "name = ''enp2s'' @ CutPrefix name ''enp2s''"
          using True by (rule HasPrefix_CutPrefix)
        ultimately show ?thesis by blast
      next
        case False
        with nm ne np assms show ?thesis
          unfolding portIdForName_def by simp
      qed
    qed
  qed
  then show ?thesis by simp
qed

lemma portId_decimal_Ethernet:
  "minInt \<le> N \<and> N < maxInt \<longrightarrow> portIdForName (''Ethernet'' @ showInt N) = Inr (N + 1)"
proof
  assume h: "minInt \<le> N \<and> N < maxInt"
  then have "wrap64 (N + 1) = N + 1"
    by (intro wrap64_id) simp_all
  with h show "portIdForName (''Ethernet'' @ showInt N) = Inr (N + 1)"
    by (simp only: portId_Ethernet Atoi_showInt) simp
qed

lemma portId_decimal_port:
  "minInt \<le> N \<and> N \<le> maxInt \<longrightarrow>
     portIdForName (''port'' @ showInt N) = Inr N
     \<and> portIdForName (''enp2s'' @ showInt N) = Inr N"
  by (simp only: portId_port portId_enp2s Atoi_showInt) simp

lemma portId_decimal_out_of_range:
  "N < minInt \<or> maxInt < N \<longrightarrow>
     portIdForName (''Ethernet'' @ showInt N) = Inl (PortConvError (''Ethernet'' @ showInt N))
     \<and> portIdForName (''port'' @ showInt N) = Inl (PortConvError (''port'' @ showInt N))
     \<and> portIdForName (''enp2s'' @ showInt N) = Inl (PortConvError (''enp2s'' @ showInt N))"
  by (simp only: portId_Ethernet portId_port portId_enp2s Atoi_showInt) auto

lemma portId_Ethernet_maxInt:
  "portIdForName (''Ethernet'' @ showInt maxInt) = Inr minInt"
proof -
  have "wrap64 (maxInt + 1) = minInt"
    by (simp add: wrap64_def minInt_def maxInt_def)
  moreover have "minInt \<le> maxInt" by (simp add: minInt_def maxInt_def)
  ultimately show ?thesis
    by (simp only: portId_Ethernet Atoi_showInt) simp
qed

lemma portId_unsupported:
  "\<not> HasPrefix name ''Management0'' \<and> \<not> HasPrefix name ''Ethernet''
     \<and> \<not> HasPrefix name ''port'' \<and> \<not> HasPrefix name ''enp2s''
   \<longrightarrow> portIdForName name = Inl (UnsupportedPortName name)"
  by (simp add: portIdForName_def)

lemma portId_forms_Inr:
  assumes "HasPrefix name ''Management0''
     \<or> (\<exists>s n. Atoi s = Inr n
           \<and> (name = ''Ethernet'' @ s \<or> name = ''port'' @ s \<or> name = ''enp2s'' @ s))"
  shows "\<exists>i. portIdForName name = Inr i"
  using assms
proof
  assume "HasPrefix name ''Management0''"
  then show ?thesis by (simp add: portIdForName_def)
next
  assume "\<exists>s n. Atoi s = Inr n
           \<and> (name = ''Ethernet'' @ s \<or> name = ''port'' @ s \<or> name = ''enp2s'' @ s)"
  then obtain s n where a: "Atoi s = Inr n"
    and f: "name = ''Ethernet'' @ s \<or> name = ''port'' @ s \<or> name = ''enp2s'' @ s"
    by blast
  from f consider "name = ''Ethernet'' @ s" | "name = ''port'' @ s" | "name = ''enp2s'' @ s"
    by blast
  then show ?thesis
  proof cases
    case 1
    with a show ?thesis by (simp only: portId_Ethernet) simp
  next
    case 2
    with a show ?thesis by (simp only: portId_port) simp
  next
    case 3
    with a show ?thesis by (simp only: portId_enp2s) simp
  qed
qed

lemma portId_accepted:
  "Atoi s = Inr n \<longrightarrow>
     portIdForName (''Ethernet'' @ s) = Inr (wrap64 (n + 1))
     \<and> portIdForName (''port'' @ s) = Inr n
     \<and> portIdForName (''enp2s'' @ s) = Inr n"
  by (simp only: portId_Ethernet portId_port portId_enp2s) simp

lemma portId_rejected:
  "Atoi s = Inl e \<longrightarrow>
     portIdForName (''Ethernet'' @ s) = Inl (PortConvError (''Ethernet'' @ s))
     \<and> portIdForName (''port'' @ s) = Inl (PortConvError (''port'' @ s))
     \<and> portIdForName (''enp2s'' @ s) = Inl (PortConvError (''enp2s'' @ s))"
  by (simp only: portId_Ethernet portId_port portId_enp2s) simp

lemma portId_examples:
  "portIdForName ''Management0/0'' = Inr 0"
  "portIdForName ''Ethernet4'' = Inr 5"
  "portIdForName ''port3'' = Inr 3"
  "portIdForName ''enp2s7'' = Inr 7"
  "portIdForName ''weird0'' = Inl (UnsupportedPortName ''weird0'')"
  by code_simp+

text \<open>
  C5, as the code has it. \<open>minInt = -2\<^sup>6\<^sup>3\<close> and \<open>maxInt = 2\<^sup>6\<^sup>3 - 1\<close> bound the \<open>int\<close> of Go,
  and \<open>showInt N\<close> is \<open>N\<close> written in decimal. A name that begins with \<open>Management0\<close> has
  index 0. \<open>Ethernet\<close> followed by \<open>N\<close> has index \<open>N + 1\<close> for \<open>minInt \<le> N < maxInt\<close>; for
  \<open>N = maxInt\<close> the sum wraps and the index is \<open>minInt\<close>, without an error. \<open>port\<close> and
  \<open>enp2s\<close> followed by \<open>N\<close> have index \<open>N\<close> for \<open>minInt \<le> N \<le> maxInt\<close>. An \<open>N\<close> below
  \<open>minInt\<close> or above \<open>maxInt\<close> is an error after each of the three prefixes, since
  \<open>strconv.Atoi\<close> rejects it. More generally, after each of the three prefixes a text that
  \<open>Atoi\<close> accepts gives the index and a text that it rejects gives an error; a name has an
  index exactly if it begins with \<open>Management0\<close> or is one of the three prefixes followed
  by a text that \<open>Atoi\<close> accepts, and a name with none of the four prefixes is an error.
  The five examples of the specification hold.
\<close>

theorem portIdForName_rule:
  "(HasPrefix name ''Management0'' \<longrightarrow> portIdForName name = Inr 0)
   \<and> (minInt \<le> N \<and> N < maxInt \<longrightarrow> portIdForName (''Ethernet'' @ showInt N) = Inr (N + 1))
   \<and> portIdForName (''Ethernet'' @ showInt maxInt) = Inr minInt
   \<and> (minInt \<le> N \<and> N \<le> maxInt \<longrightarrow>
        portIdForName (''port'' @ showInt N) = Inr N
        \<and> portIdForName (''enp2s'' @ showInt N) = Inr N)
   \<and> (N < minInt \<or> maxInt < N \<longrightarrow>
        portIdForName (''Ethernet'' @ showInt N) = Inl (PortConvError (''Ethernet'' @ showInt N))
        \<and> portIdForName (''port'' @ showInt N) = Inl (PortConvError (''port'' @ showInt N))
        \<and> portIdForName (''enp2s'' @ showInt N) = Inl (PortConvError (''enp2s'' @ showInt N)))
   \<and> (Atoi s = Inr n \<longrightarrow>
        portIdForName (''Ethernet'' @ s) = Inr (wrap64 (n + 1))
        \<and> portIdForName (''port'' @ s) = Inr n
        \<and> portIdForName (''enp2s'' @ s) = Inr n)
   \<and> (Atoi s = Inl e \<longrightarrow>
        portIdForName (''Ethernet'' @ s) = Inl (PortConvError (''Ethernet'' @ s))
        \<and> portIdForName (''port'' @ s) = Inl (PortConvError (''port'' @ s))
        \<and> portIdForName (''enp2s'' @ s) = Inl (PortConvError (''enp2s'' @ s)))
   \<and> ((\<exists>i. portIdForName name = Inr i) \<longleftrightarrow>
        HasPrefix name ''Management0''
        \<or> (\<exists>s n. Atoi s = Inr n
              \<and> (name = ''Ethernet'' @ s \<or> name = ''port'' @ s \<or> name = ''enp2s'' @ s)))
   \<and> (\<not> HasPrefix name ''Management0'' \<and> \<not> HasPrefix name ''Ethernet''
        \<and> \<not> HasPrefix name ''port'' \<and> \<not> HasPrefix name ''enp2s''
      \<longrightarrow> portIdForName name = Inl (UnsupportedPortName name))
   \<and> portIdForName ''Management0/0'' = Inr 0
   \<and> portIdForName ''Ethernet4'' = Inr 5
   \<and> portIdForName ''port3'' = Inr 3
   \<and> portIdForName ''enp2s7'' = Inr 7
   \<and> portIdForName ''weird0'' = Inl (UnsupportedPortName ''weird0'')"
proof -
  have a: "HasPrefix name ''Management0'' \<longrightarrow> portIdForName name = Inr 0"
    by (simp add: portIdForName_def)
  have e: "(\<exists>i. portIdForName name = Inr i) \<longleftrightarrow>
        HasPrefix name ''Management0''
        \<or> (\<exists>s n. Atoi s = Inr n
              \<and> (name = ''Ethernet'' @ s \<or> name = ''port'' @ s \<or> name = ''enp2s'' @ s))"
  proof
    assume "\<exists>i. portIdForName name = Inr i"
    then obtain i where "portIdForName name = Inr i" ..
    then show "HasPrefix name ''Management0''
        \<or> (\<exists>s n. Atoi s = Inr n
              \<and> (name = ''Ethernet'' @ s \<or> name = ''port'' @ s \<or> name = ''enp2s'' @ s))"
      by (rule portId_Inr_forms)
  next
    assume "HasPrefix name ''Management0''
        \<or> (\<exists>s n. Atoi s = Inr n
              \<and> (name = ''Ethernet'' @ s \<or> name = ''port'' @ s \<or> name = ''enp2s'' @ s))"
    then show "\<exists>i. portIdForName name = Inr i" by (rule portId_forms_Inr)
  qed
  show ?thesis
    by (intro conjI a e portId_decimal_Ethernet portId_Ethernet_maxInt portId_decimal_port
        portId_decimal_out_of_range portId_accepted portId_rejected portId_unsupported
        portId_examples)
qed

lemma showInt_bounds:
  "showInt maxInt = ''9223372036854775807''"
  "showInt minInt = ''-9223372036854775808''"
  "showInt 12 = ''12''"
  by (simp_all add: showInt_def showPos.simps digitChar_simps maxInt_def minInt_def)

lemma Atoi_examples:
  "Atoi ''+4'' = Inr 4"
  "Atoi ''x'' = Inl NumError"
  by code_simp+

theorem portIdForName_rule_witness:
  "HasPrefix ''Management0/0'' ''Management0''
   \<and> portIdForName ''Management0/0'' = Inr 0
   \<and> minInt \<le> 12 \<and> 12 < maxInt
   \<and> portIdForName ''Ethernet12'' = Inr 13
   \<and> portIdForName ''port12'' = Inr 12
   \<and> portIdForName ''enp2s12'' = Inr 12
   \<and> portIdForName ''Ethernet9223372036854775807'' = Inr (- 9223372036854775808)
   \<and> portIdForName ''port9223372036854775807'' = Inr 9223372036854775807
   \<and> portIdForName ''Ethernet-9223372036854775808'' = Inr (- 9223372036854775807)
   \<and> portIdForName ''Ethernet-9223372036854775809''
       = Inl (PortConvError ''Ethernet-9223372036854775809'')
   \<and> portIdForName ''Ethernet9223372036854775808''
       = Inl (PortConvError ''Ethernet9223372036854775808'')
   \<and> portIdForName ''Ethernet+4'' = Inr 5
   \<and> portIdForName ''portx'' = Inl (PortConvError ''portx'')
   \<and> portIdForName ''eth0'' = Inl (UnsupportedPortName ''eth0'')"
proof -
  have p: "HasPrefix ''Management0/0'' ''Management0''" by (simp add: HasPrefix_def)
  have q: "minInt \<le> 12 \<and> 12 < maxInt" by (simp add: maxInt_def minInt_def)
  from q have q': "minInt \<le> 12 \<and> 12 \<le> maxInt" by simp
  have m: "portIdForName ''Management0/0'' = Inr 0"
    using portIdForName_rule [of "''Management0/0''" 12 "''+4''" 4 NumError] p by blast
  have w: "wrap64 (4 + 1) = 5" by (simp add: wrap64_def)
  have c12: "portIdForName ''Ethernet12'' = Inr 13 \<and> portIdForName ''port12'' = Inr 12
      \<and> portIdForName ''enp2s12'' = Inr 12"
    using portIdForName_rule [of "''Management0/0''" 12 "''+4''" 4 NumError] q q'
    by (simp only: showInt_bounds) simp
  have cmax: "portIdForName ''Ethernet9223372036854775807'' = Inr (- 9223372036854775808)"
    using portIdForName_rule [of "''Management0/0''" 12 "''+4''" 4 NumError]
    by (simp only: showInt_bounds) (simp add: minInt_def)
  have pmax: "portIdForName ''port9223372036854775807'' = Inr 9223372036854775807"
    using portIdForName_rule [of "''Management0/0''" maxInt "''+4''" 4 NumError]
    by (simp only: showInt_bounds) (simp add: minInt_def maxInt_def)
  have cmin: "portIdForName ''Ethernet-9223372036854775808'' = Inr (- 9223372036854775807)"
    using portIdForName_rule [of "''Management0/0''" minInt "''+4''" 4 NumError]
    by (simp only: showInt_bounds) (simp add: minInt_def maxInt_def)
  have s1: "showInt (- 9223372036854775809) = ''-9223372036854775809''"
    by (simp add: showInt_def showPos.simps digitChar_simps)
  have s2: "showInt 9223372036854775808 = ''9223372036854775808''"
    by (simp add: showInt_def showPos.simps digitChar_simps)
  have clow: "portIdForName ''Ethernet-9223372036854775809''
       = Inl (PortConvError ''Ethernet-9223372036854775809'')"
    using portIdForName_rule [of "''Management0/0''" "- 9223372036854775809" "''+4''" 4 NumError]
    by (simp only: s1) (simp add: minInt_def maxInt_def)
  have chigh: "portIdForName ''Ethernet9223372036854775808''
       = Inl (PortConvError ''Ethernet9223372036854775808'')"
    using portIdForName_rule [of "''Management0/0''" 9223372036854775808 "''+4''" 4 NumError]
    by (simp only: s2) (simp add: minInt_def maxInt_def)
  have cplus: "portIdForName ''Ethernet+4'' = Inr 5"
    using portIdForName_rule [of "''Management0/0''" 12 "''+4''" 4 NumError] Atoi_examples(1) w
    by simp
  have cx: "portIdForName ''portx'' = Inl (PortConvError ''portx'')"
    using portIdForName_rule [of "''Management0/0''" 12 "''x''" 4 NumError] Atoi_examples(2)
    by simp
  have h: "\<not> HasPrefix ''eth0'' ''Management0'' \<and> \<not> HasPrefix ''eth0'' ''Ethernet''
        \<and> \<not> HasPrefix ''eth0'' ''port'' \<and> \<not> HasPrefix ''eth0'' ''enp2s''"
    by (simp add: HasPrefix_def)
  have ce: "portIdForName ''eth0'' = Inl (UnsupportedPortName ''eth0'')"
    using portIdForName_rule [of "''eth0''" 12 "''+4''" 4 NumError] h by blast
  from p m q c12 cmax pmax cmin clow chigh cplus cx ce show ?thesis
    by - (intro conjI; (elim conjE)?; assumption)
qed

text \<open>
  The claim as it is written gives every decimal \<open>N\<close> an index; the name below is
  \<open>Ethernet\<close> followed by the decimal representation of \<open>10\<^sup>2\<^sup>0 - 1\<close> and is an error.
\<close>

theorem portIdForName_out_of_range:
  "portIdForName ''Ethernet99999999999999999999''
     = Inl (PortConvError ''Ethernet99999999999999999999'')
   \<and> ''Ethernet99999999999999999999'' = ''Ethernet'' @ showInt 99999999999999999999"
proof -
  have a: "portIdForName ''Ethernet99999999999999999999''
     = Inl (PortConvError ''Ethernet99999999999999999999'')"
    by code_simp
  have b: "''Ethernet99999999999999999999'' = ''Ethernet'' @ showInt 99999999999999999999"
    by code_simp
  from a b show ?thesis by simp
qed

section \<open>The checks of a pair: properties\<close>



















section \<open>Filling the gaps: properties\<close>

lemma fold_max_step:
  "fold (\<lambda>iface mx. if iface > mx then iface else mx) xs (a::int) = Max (insert a (set xs))"
proof (induction xs arbitrary: a)
  case Nil
  then show ?case by simp
next
  case (Cons x xs)
  have "(if x > a then x else a) = max a x" by (simp add: max_def)
  moreover have "Max (insert (max a x) (set xs)) = Max (insert a (insert x (set xs)))"
    by (cases "set xs = {}") (auto simp: max.assoc)
  ultimately show ?case using Cons.IH [of "max a x"] by simp
qed

lemma maxDevID_Max: "maxDevID ifs = Max (insert 0 (fmdom' ifs))"
  by (simp add: maxDevID_def fold_max_step fmdom'_alt_def)

lemma maxDevID_nonneg: "0 \<le> maxDevID ifs"
  by (simp add: maxDevID_Max)

lemma maxDevID_ge: "i |\<in>| fmdom ifs \<Longrightarrow> i \<le> maxDevID ifs"
  by (simp add: maxDevID_Max fmdom'_alt_def)

lemma fill_fold_lookup:
  "fmlookup (fold (\<lambda>iface acc. if iface |\<notin>| D then fmupd iface e acc else acc) xs acc0) i =
     (if i \<in> set xs \<and> i |\<notin>| D then Some e else fmlookup acc0 i)"
  by (induction xs arbitrary: acc0) auto

lemma fillGaps_lookup:
  "fmlookup (fillGaps ifs) i =
     (if 0 \<le> i \<and> i \<le> maxDevID ifs \<and> i |\<notin>| fmdom ifs then Some emptyInterface
      else fmlookup ifs i)"
  by (simp add: fillGaps_def fill_fold_lookup)

lemma fillGaps_dom: "fmdom' (fillGaps ifs) = fmdom' ifs \<union> {0 .. maxDevID ifs}"
  by (auto simp: fmlookup_dom'_iff fillGaps_lookup fmlookup_dom_iff split: if_splits)

lemma maxDevID_fillGaps: "maxDevID (fillGaps ifs) = maxDevID ifs"
proof -
  have "Max (insert 0 (fmdom' ifs \<union> {0 .. maxDevID ifs})) = maxDevID ifs"
  proof (rule Max_eqI)
    show "finite (insert 0 (fmdom' ifs \<union> {0 .. maxDevID ifs}))" by simp
    show "y \<le> maxDevID ifs" if "y \<in> insert 0 (fmdom' ifs \<union> {0 .. maxDevID ifs})" for y
      using that maxDevID_nonneg [of ifs] maxDevID_ge [of y ifs]
      by (auto simp: fmdom'_alt_def)
    show "maxDevID ifs \<in> insert 0 (fmdom' ifs \<union> {0 .. maxDevID ifs})"
      using maxDevID_nonneg [of ifs] by simp
  qed
  then show ?thesis by (simp add: maxDevID_Max [of "fillGaps ifs"] fillGaps_dom)
qed

lemma fMax_Max: "A \<noteq> {||} \<Longrightarrow> fMax A = Max (fset A)"
proof (rule fMax_eqI)
  assume ne: "A \<noteq> {||}"
  show "y \<le> Max (fset A)" if "y |\<in>| A" for y
    using that by simp
  from ne have "fset A \<noteq> {}" by auto
  then have "Max (fset A) \<in> fset A" by (intro Max_in) simp_all
  then show "Max (fset A) |\<in>| A" by simp
qed

lemma maxDevID_fMax: "0 |\<in>| fmdom ifs \<Longrightarrow> maxDevID ifs = fMax (fmdom ifs)"
proof -
  assume z: "0 |\<in>| fmdom ifs"
  then have ne: "fmdom ifs \<noteq> {||}" by auto
  from z have "insert 0 (fmdom' ifs) = fset (fmdom ifs)"
    by (auto simp: fmdom'_alt_def)
  then show ?thesis by (simp add: maxDevID_Max fMax_Max [OF ne])
qed

text \<open>The maps that the pass leaves as they are: the dense maps that hold index 0.\<close>

lemma dense_zero_iff:
  "dense ifs \<and> 0 |\<in>| fmdom ifs
     \<longleftrightarrow> (\<forall>i. 0 \<le> i \<and> i \<le> maxDevID ifs \<longrightarrow> i |\<in>| fmdom ifs)"
proof (intro iffI allI impI)
  fix i
  assume h: "dense ifs \<and> 0 |\<in>| fmdom ifs" and i: "0 \<le> i \<and> i \<le> maxDevID ifs"
  from h have z: "0 |\<in>| fmdom ifs" by (rule conjunct2)
  then have ne: "fmdom ifs \<noteq> {||}" by blast
  from z have mx: "maxDevID ifs = fMax (fmdom ifs)" by (rule maxDevID_fMax)
  from h have "dense ifs" by (rule conjunct1)
  then have "fmdom ifs \<noteq> {||} \<longrightarrow> (\<forall>i \<in> set [0 .. fMax (fmdom ifs)]. i |\<in>| fmdom ifs)"
    unfolding dense_def .
  with ne have b: "\<forall>i \<in> set [0 .. fMax (fmdom ifs)]. i |\<in>| fmdom ifs" by (rule rev_mp)
  from i have "i \<in> set [0 .. maxDevID ifs]" by simp
  then have "i \<in> set [0 .. fMax (fmdom ifs)]" by (simp only: mx)
  with b show "i |\<in>| fmdom ifs" by (rule bspec)
next
  assume a: "\<forall>i. 0 \<le> i \<and> i \<le> maxDevID ifs \<longrightarrow> i |\<in>| fmdom ifs"
  with maxDevID_nonneg [of ifs] have z: "0 |\<in>| fmdom ifs" by simp
  then have mx: "maxDevID ifs = fMax (fmdom ifs)" by (rule maxDevID_fMax)
  show "dense ifs \<and> 0 |\<in>| fmdom ifs"
  proof
    show "dense ifs"
      unfolding dense_def
    proof (intro impI ballI)
      fix i
      assume "i \<in> set [0 .. fMax (fmdom ifs)]"
      then have "i \<in> set [0 .. maxDevID ifs]" by (simp only: mx)
      then have "0 \<le> i \<and> i \<le> maxDevID ifs" by simp
      with a show "i |\<in>| fmdom ifs" by blast
    qed
    show "0 |\<in>| fmdom ifs" by (rule z)
  qed
qed

lemma fillGaps_filled:
  "\<forall>i. 0 \<le> i \<and> i \<le> maxDevID (fillGaps ifs) \<longrightarrow> i |\<in>| fmdom (fillGaps ifs)"
  unfolding maxDevID_fillGaps
  by (auto simp: fmlookup_dom_iff fillGaps_lookup)

lemma dense_fillGaps: "dense (fillGaps ifs) \<and> 0 |\<in>| fmdom (fillGaps ifs)"
  using fillGaps_filled [of ifs] by (simp only: dense_zero_iff)

lemma fillGaps_dense_id: "dense ifs \<and> 0 |\<in>| fmdom ifs \<Longrightarrow> fillGaps ifs = ifs"
  unfolding dense_zero_iff by (rule fmap_ext) (auto simp: fillGaps_lookup)

lemma fillGaps_id_dense: "fillGaps ifs = ifs \<Longrightarrow> dense ifs \<and> 0 |\<in>| fmdom ifs"
  using dense_fillGaps [of ifs] by simp

lemma fillGaps_idem: "fillGaps (fillGaps ifs) = fillGaps ifs"
  by (rule fillGaps_dense_id) (rule dense_fillGaps)

lemma NewVMManager_vms:
  assumes "NewVMManager k c data = Inr mngr"
  shows "\<exists>m vmID m'. assignVMs k data = Inr (m, vmID) \<and> connLoop k c (ConnectionAll data) m = Inr m'
           \<and> vms mngr = fmmap fillVM m' \<and> cfg mngr = c"
  using assms unfolding NewVMManager_def by (auto split: sum.splits prod.splits)

text \<open>
  The registry that is returned holds the VMs of the connection pass, each with its
  interface map filled and nothing else changed.
\<close>

lemma NewVMManager_filled:
  assumes "NewVMManager k c data = Inr mngr"
  shows "\<exists>m vmID m'. assignVMs k data = Inr (m, vmID)
           \<and> connLoop k c (ConnectionAll data) m = Inr m'
           \<and> (\<forall>name. fmlookup (vms mngr) name =
                 map_option (\<lambda>vm. vm\<lparr>Interfaces := fillGaps (Interfaces vm)\<rparr>)
                   (fmlookup m' name))"
proof -
  from NewVMManager_vms [OF assms] obtain m vmID m' where
    a: "assignVMs k data = Inr (m, vmID)" and b: "connLoop k c (ConnectionAll data) m = Inr m'"
    and v: "vms mngr = fmmap fillVM m'" by blast
  have "fmlookup (vms mngr) name =
      map_option (\<lambda>vm. vm\<lparr>Interfaces := fillGaps (Interfaces vm)\<rparr>) (fmlookup m' name)"
    for name
    by (cases "fmlookup m' name") (simp_all add: v fillVM_def)
  with a b show ?thesis by blast
qed

lemma NewVMManager_dense:
  assumes "NewVMManager k c data = Inr mngr" and "fmlookup (vms mngr) name = Some vm"
  shows "dense (Interfaces vm) \<and> 0 |\<in>| fmdom (Interfaces vm)
     \<and> fillGaps (Interfaces vm) = Interfaces vm"
proof -
  from NewVMManager_vms [OF assms(1)] obtain m' where "vms mngr = fmmap fillVM m'" by blast
  with assms(2) obtain vm0 where "vm = fillVM vm0" by auto
  then have i: "Interfaces vm = fillGaps (Interfaces vm0)" by (simp add: fillVM_def)
  show ?thesis
    unfolding i using dense_fillGaps [of "Interfaces vm0"] fillGaps_idem [of "Interfaces vm0"]
    by simp
qed

text \<open>
  C7, as the code has it. The pass takes as maximum the largest of the assigned indices
  and 0, and fills from 0 to it: an assigned index keeps its descriptor, an index between
  0 and the maximum that was not assigned gets the empty descriptor, and no other index is
  added. What it leaves is a dense map that holds index 0. The maps it leaves unchanged
  are exactly the dense maps that hold index 0, so running it twice is running it once. The
  registry that the compiler returns holds the VMs of the connection pass, each with its
  interface map filled in this way and nothing else changed; every map of the registry is
  dense, holds index 0, and the pass would leave it as it is.
\<close>

theorem gap_filling_dense_idempotent:
  "dense (fillGaps ifs) \<and> 0 |\<in>| fmdom (fillGaps ifs)
   \<and> fmlookup (fillGaps ifs) i =
       (if i |\<in>| fmdom ifs then fmlookup ifs i
        else if 0 \<le> i \<and> i \<le> maxDevID ifs then Some emptyInterface else None)
   \<and> maxDevID ifs = Max (insert 0 (fmdom' ifs))
   \<and> (fillGaps ifs = ifs \<longleftrightarrow> dense ifs \<and> 0 |\<in>| fmdom ifs)
   \<and> fillGaps (fillGaps ifs) = fillGaps ifs
   \<and> (NewVMManager k c data = Inr mngr
        \<longrightarrow> (\<exists>m vmID m'. assignVMs k data = Inr (m, vmID)
               \<and> connLoop k c (ConnectionAll data) m = Inr m'
               \<and> (\<forall>name. fmlookup (vms mngr) name =
                     map_option (\<lambda>vm. vm\<lparr>Interfaces := fillGaps (Interfaces vm)\<rparr>)
                       (fmlookup m' name))))
   \<and> (NewVMManager k c data = Inr mngr \<and> fmlookup (vms mngr) name = Some vm
        \<longrightarrow> dense (Interfaces vm) \<and> 0 |\<in>| fmdom (Interfaces vm)
            \<and> fillGaps (Interfaces vm) = Interfaces vm)"
proof -
  have l: "fmlookup (fillGaps ifs) i =
       (if i |\<in>| fmdom ifs then fmlookup ifs i
        else if 0 \<le> i \<and> i \<le> maxDevID ifs then Some emptyInterface else None)"
    by (auto simp: fillGaps_lookup fmlookup_dom_iff)
  have e: "fillGaps ifs = ifs \<longleftrightarrow> dense ifs \<and> 0 |\<in>| fmdom ifs"
    using fillGaps_dense_id [of ifs] fillGaps_id_dense [of ifs] by blast
  have r1: "NewVMManager k c data = Inr mngr
        \<longrightarrow> (\<exists>m vmID m'. assignVMs k data = Inr (m, vmID)
               \<and> connLoop k c (ConnectionAll data) m = Inr m'
               \<and> (\<forall>name. fmlookup (vms mngr) name =
                     map_option (\<lambda>vm. vm\<lparr>Interfaces := fillGaps (Interfaces vm)\<rparr>)
                       (fmlookup m' name)))"
    using NewVMManager_filled [of k c data mngr] by (intro impI)
  have r2: "NewVMManager k c data = Inr mngr \<and> fmlookup (vms mngr) name = Some vm
        \<longrightarrow> dense (Interfaces vm) \<and> 0 |\<in>| fmdom (Interfaces vm)
            \<and> fillGaps (Interfaces vm) = Interfaces vm"
    using NewVMManager_dense [of k c data mngr name vm] by (intro impI) (elim conjE)
  have d1: "dense (fillGaps ifs)" and d2: "0 |\<in>| fmdom (fillGaps ifs)"
    using dense_fillGaps [of ifs] by simp_all
  from d1 d2 l maxDevID_Max [of ifs] e fillGaps_idem [of ifs] r1 r2
  show ?thesis by (intro conjI)
qed

lemma exWiring_compiles:
  "\<exists>mngr. NewVMManager exConsts exConfig exWiring = Inr mngr
     \<and> map_option (\<lambda>vm. fmdom (Interfaces vm)) (fmlookup (vms mngr) ''switch-1'')
         = Some {|0, 1, 2, 3, 4, 5|}"
proof -
  have "(case NewVMManager exConsts exConfig exWiring of
           Inl e \<Rightarrow> False
         | Inr mngr \<Rightarrow>
             map_option (\<lambda>vm. fmdom (Interfaces vm)) (fmlookup (vms mngr) ''switch-1'')
               = Some {|0, 1, 2, 3, 4, 5|})"
    by code_simp
  then show ?thesis by (auto split: sum.splits)
qed

text \<open>A switch without links: the connection pass leaves its map empty, the pass fills index 0.\<close>

lemma exWiringBare_compiles:
  "\<exists>m vmID m' mngr. assignVMs exConsts exWiringBare = Inr (m, vmID)
     \<and> connLoop exConsts exConfig (ConnectionAll exWiringBare) m = Inr m'
     \<and> map_option Interfaces (fmlookup m' ''switch-1'') = Some fmempty
     \<and> NewVMManager exConsts exConfig exWiringBare = Inr mngr
     \<and> map_option Interfaces (fmlookup (vms mngr) ''switch-1'')
         = Some (fmupd 0 emptyInterface fmempty)"
proof -
  have a: "(case assignVMs exConsts exWiringBare of
           Inl e \<Rightarrow> False
         | Inr (m, vmID) \<Rightarrow>
             (case connLoop exConsts exConfig (ConnectionAll exWiringBare) m of
                Inl e \<Rightarrow> False
              | Inr m' \<Rightarrow> map_option Interfaces (fmlookup m' ''switch-1'') = Some fmempty))"
    by code_simp
  have b: "(case NewVMManager exConsts exConfig exWiringBare of
           Inl e \<Rightarrow> False
         | Inr mngr \<Rightarrow>
             map_option Interfaces (fmlookup (vms mngr) ''switch-1'')
               = Some (fmupd 0 emptyInterface fmempty))"
    by code_simp
  from a obtain m vmID where 1: "assignVMs exConsts exWiringBare = Inr (m, vmID)"
    by (cases "assignVMs exConsts exWiringBare") (simp_all split: prod.splits)
  from a obtain m' where
    2: "connLoop exConsts exConfig (ConnectionAll exWiringBare) m = Inr m'"
    and 3: "map_option Interfaces (fmlookup m' ''switch-1'') = Some fmempty"
    unfolding 1
    by (cases "connLoop exConsts exConfig (ConnectionAll exWiringBare) m") simp_all
  from b obtain mngr where 4: "NewVMManager exConsts exConfig exWiringBare = Inr mngr"
    and 5: "map_option Interfaces (fmlookup (vms mngr) ''switch-1'')
         = Some (fmupd 0 emptyInterface fmempty)"
    by (cases "NewVMManager exConsts exConfig exWiringBare") simp_all
  from 1 2 3 4 5 show ?thesis by blast
qed

lemma exInterfaces_facts:
  "maxDevID exInterfaces = 3" "fmdom exInterfaces = {|3|}"
  by code_simp+

theorem gap_filling_dense_idempotent_witness:
  "dense (fillGaps exInterfaces)
   \<and> 0 |\<in>| fmdom (fillGaps exInterfaces)
   \<and> fmlookup (fillGaps exInterfaces) 0 = Some emptyInterface
   \<and> fmlookup (fillGaps exInterfaces) 1 = Some emptyInterface
   \<and> fmlookup (fillGaps exInterfaces) 3 = fmlookup exInterfaces 3
   \<and> fmlookup (fillGaps exInterfaces) 4 = None
   \<and> fillGaps exInterfaces \<noteq> exInterfaces
   \<and> fillGaps (fillGaps exInterfaces) = fillGaps exInterfaces
   \<and> (\<exists>mngr vm. NewVMManager exConsts exConfig exWiring = Inr mngr
         \<and> fmlookup (vms mngr) ''switch-1'' = Some vm
         \<and> fmdom (Interfaces vm) = {|0, 1, 2, 3, 4, 5|}
         \<and> dense (Interfaces vm) \<and> 0 |\<in>| fmdom (Interfaces vm)
         \<and> fillGaps (Interfaces vm) = Interfaces vm)
   \<and> (\<exists>m vmID m' mngr. assignVMs exConsts exWiringBare = Inr (m, vmID)
         \<and> connLoop exConsts exConfig (ConnectionAll exWiringBare) m = Inr m'
         \<and> map_option Interfaces (fmlookup m' ''switch-1'') = Some fmempty
         \<and> NewVMManager exConsts exConfig exWiringBare = Inr mngr
         \<and> map_option Interfaces (fmlookup (vms mngr) ''switch-1'')
             = Some (fmupd 0 emptyInterface fmempty))"
proof -
  note mx = exInterfaces_facts(1) and dm = exInterfaces_facts(2)
  obtain mngr where c: "NewVMManager exConsts exConfig exWiring = Inr mngr"
      and s: "map_option (\<lambda>vm. fmdom (Interfaces vm)) (fmlookup (vms mngr) ''switch-1'')
         = Some {|0, 1, 2, 3, 4, 5|}"
    using exWiring_compiles by blast
  from s obtain vm where v: "fmlookup (vms mngr) ''switch-1'' = Some vm"
      and dv: "fmdom (Interfaces vm) = {|0, 1, 2, 3, 4, 5|}"
    by (cases "fmlookup (vms mngr) ''switch-1''") simp_all
  have g0: "fmlookup (fillGaps exInterfaces) 0 = Some emptyInterface"
    using gap_filling_dense_idempotent [of exInterfaces 0] by (simp add: mx dm)
  have g1: "fmlookup (fillGaps exInterfaces) 1 = Some emptyInterface"
    using gap_filling_dense_idempotent [of exInterfaces 1] by (simp add: mx dm)
  have g3: "fmlookup (fillGaps exInterfaces) 3 = fmlookup exInterfaces 3"
    using gap_filling_dense_idempotent [of exInterfaces 3] by (simp add: mx dm)
  have g4: "fmlookup (fillGaps exInterfaces) 4 = None"
    using gap_filling_dense_idempotent [of exInterfaces 4] by (simp add: mx dm)
  have d: "dense (fillGaps exInterfaces) \<and> 0 |\<in>| fmdom (fillGaps exInterfaces)"
    using gap_filling_dense_idempotent [of exInterfaces 0] by blast
  have z: "0 |\<notin>| fmdom exInterfaces" by (simp add: dm)
  have n: "fillGaps exInterfaces \<noteq> exInterfaces"
    using gap_filling_dense_idempotent [of exInterfaces 0] z by blast
  have i: "fillGaps (fillGaps exInterfaces) = fillGaps exInterfaces"
    using gap_filling_dense_idempotent [of "fillGaps exInterfaces" 0] d by blast
  have r: "dense (Interfaces vm) \<and> 0 |\<in>| fmdom (Interfaces vm)
      \<and> fillGaps (Interfaces vm) = Interfaces vm"
    using gap_filling_dense_idempotent
      [of exInterfaces 0 exConsts exConfig exWiring mngr "''switch-1''" vm] c v
    by blast
  from d have d1: "dense (fillGaps exInterfaces)" and d2: "0 |\<in>| fmdom (fillGaps exInterfaces)"
    by simp_all
  have ex: "\<exists>mngr vm. NewVMManager exConsts exConfig exWiring = Inr mngr
         \<and> fmlookup (vms mngr) ''switch-1'' = Some vm
         \<and> fmdom (Interfaces vm) = {|0, 1, 2, 3, 4, 5|}
         \<and> dense (Interfaces vm) \<and> 0 |\<in>| fmdom (Interfaces vm)
         \<and> fillGaps (Interfaces vm) = Interfaces vm"
    using c v dv r by blast
  from d1 d2 g0 g1 g3 g4 n i ex exWiringBare_compiles show ?thesis by (intro conjI)
qed

text \<open>
  The claim as it is written has the pass leave every dense map unchanged. A map without
  interfaces, that of a VM without links, is dense: it has no assigned index. So is a map
  whose only index is negative: no index lies between 0 and its maximum. The pass adds
  index 0 to both.
\<close>

theorem gap_filling_adds_index_zero:
  "dense fmempty
   \<and> fillGaps fmempty = fmupd 0 emptyInterface fmempty
   \<and> fillGaps fmempty \<noteq> fmempty
   \<and> dense exNegative
   \<and> fmlookup (fillGaps exNegative) 0 = Some emptyInterface
   \<and> fmlookup exNegative 0 = None
   \<and> fillGaps exNegative \<noteq> exNegative"
proof -
  have a: "dense fmempty" by (simp add: dense_def)
  have m: "maxDevID fmempty = 0" by code_simp
  have b: "fillGaps fmempty = fmupd 0 emptyInterface fmempty"
    by (rule fmap_ext) (simp add: fillGaps_lookup m)
  have "fmlookup (fillGaps fmempty) 0 \<noteq> fmlookup fmempty 0"
    by (simp add: fillGaps_lookup m)
  then have c: "fillGaps fmempty \<noteq> fmempty" by auto
  have d: "dense exNegative" by (simp add: dense_def exNegative_def)
  have mn: "maxDevID exNegative = 0" by code_simp
  have e: "fmlookup (fillGaps exNegative) 0 = Some emptyInterface"
    by (simp add: fillGaps_lookup mn) (simp add: exNegative_def)
  have f: "fmlookup exNegative 0 = None" by (simp add: exNegative_def)
  from e f have g: "fillGaps exNegative \<noteq> exNegative" by auto
  from a b c d e f g show ?thesis by (intro conjI)
qed

section \<open>The NAT variant\<close>

lemma AddLink_nil: "AddLink k c m None dest conn = Inl LocalPortNil"
  by (simp add: AddLink_def)

lemma linkLoop_no_remote: "\<exists>e. linkLoop k c conn ((Some sw, None) # rest) m = Inl e"
  by (cases "AddLink k c m (Some sw) None conn") (simp_all add: AddLink_nil)

lemma connLinks_NAT:
  assumes "Unbundled (Spec conn) = None" "Bundled (Spec conn) = None"
    "Management (Spec conn) = None" "MCLAG (Spec conn) = None" "MCLAGDomain (Spec conn) = None"
    "NAT (Spec conn) = Some sw"
  shows "connLinks conn = Inr [(Some sw, None)]"
  using assms by (simp add: connLinks_def)

lemma connLoop_fails:
  assumes "conn \<in> set conns" and "connLinks conn = Inr ((Some sw, None) # rest)"
  shows "\<exists>e. connLoop k c conns m = Inl e"
  using assms(1)
proof (induction conns arbitrary: m)
  case Nil
  then show ?case by simp
next
  case (Cons x xs)
  show ?case
  proof (cases "connLinks x")
    case (Inl e)
    then show ?thesis by simp
  next
    case links: (Inr ls)
    show ?thesis
    proof (cases "linkLoop k c (Connection.Name x) ls m")
      case (Inl e)
      with links show ?thesis by simp
    next
      case (Inr m')
      have "x \<noteq> conn"
      proof
        assume "x = conn"
        with links assms(2) have "ls = (Some sw, None) # rest" by simp
        with Inr linkLoop_no_remote [of k c "Connection.Name x" sw rest m] show False by simp
      qed
      with Cons.prems have "conn \<in> set xs" by simp
      from Cons.IH [OF this, of m'] links Inr show ?thesis by simp
    qed
  qed
qed

text \<open>
  C2 does not hold of the code. A connection of the NAT variant expands into the one link
  \<open>(switch port, nil)\<close>; the loop over the links calls \<open>AddLink\<close> a second time with the
  ports swapped, the local port is then nil, and \<open>AddLink\<close> returns its first error. So a
  wiring with a connection whose variant is NAT never compiles: here for every wiring,
  and on the example, where the error is the one of the nil local port.
\<close>

theorem nat_connection_fails_compilation:
  "(conn \<in> set (ConnectionAll data) \<and> Unbundled (Spec conn) = None
      \<and> Bundled (Spec conn) = None \<and> Management (Spec conn) = None
      \<and> MCLAG (Spec conn) = None \<and> MCLAGDomain (Spec conn) = None
      \<and> NAT (Spec conn) = Some sw
     \<longrightarrow> (\<exists>e. NewVMManager k c data = Inl e))
   \<and> NewVMManager exConsts exConfig exWiringNAT = Inl LocalPortNil"
proof -
  have g: "\<exists>e. NewVMManager k c data = Inl e"
    if h: "conn \<in> set (ConnectionAll data)" "Unbundled (Spec conn) = None"
      "Bundled (Spec conn) = None" "Management (Spec conn) = None"
      "MCLAG (Spec conn) = None" "MCLAGDomain (Spec conn) = None"
      "NAT (Spec conn) = Some sw"
  proof (cases "assignVMs k data")
    case (Inl e)
    then show ?thesis by (simp add: NewVMManager_def)
  next
    case (Inr r)
    obtain m vmID where r: "r = (m, vmID)" by (cases r)
    from connLoop_fails [OF h(1) connLinks_NAT [OF h(2-7)], of k c m]
    obtain e where "connLoop k c (ConnectionAll data) m = Inl e" by blast
    with Inr r show ?thesis by (simp add: NewVMManager_def)
  qed
  have x: "NewVMManager exConsts exConfig exWiringNAT = Inl LocalPortNil"
    by code_simp
  from g x show ?thesis by blast
qed

theorem nat_connection_fails_compilation_witness:
  "exNAT \<in> set (ConnectionAll exWiringNAT)
   \<and> NAT (Spec exNAT) = Some (exPort ''switch-1'' ''Ethernet0'')
   \<and> (\<exists>e. NewVMManager exConsts exConfig exWiringNAT = Inl e)"
proof -
  have a: "exNAT \<in> set (ConnectionAll exWiringNAT)"
    by (simp add: exWiringNAT_def)
  have b: "Unbundled (Spec exNAT) = None" "Bundled (Spec exNAT) = None"
    "Management (Spec exNAT) = None" "MCLAG (Spec exNAT) = None"
    "MCLAGDomain (Spec exNAT) = None"
    "NAT (Spec exNAT) = Some (exPort ''switch-1'' ''Ethernet0'')"
    by (simp_all add: exNAT_def noSpec_def)
  from nat_connection_fails_compilation
    [of exNAT exWiringNAT "exPort ''switch-1'' ''Ethernet0''" exConsts exConfig] a b
  show ?thesis by blast
qed

section \<open>The registry: identifiers and links\<close>



lemma controlLoop_register:
  "controlLoop k ss m v =
     registerLoop (controlVM k)
       (map WiringServer.Name (filter (\<lambda>s. WiringServer.Type s = ServerTypeControl) ss)) m v"
  by (induction ss arbitrary: m v) (simp_all add: controlVM_def)

lemma serverLoop_register:
  "serverLoop k ss m v =
     registerLoop (serverVM k)
       (map WiringServer.Name (filter (\<lambda>s. WiringServer.Type s = ServerTypeDefault) ss)) m v"
  by (induction ss arbitrary: m v) (simp_all add: serverVM_def)

lemma switchLoop_register:
  "switchLoop ss m v = registerLoop switchVM (map WiringSwitch.Name ss) m v"
  by (induction ss arbitrary: m v) (simp_all add: switchVM_def)

lemma registered_distinct:
  assumes "registered devs m"
  shows "distinct (map fst devs)"
proof -
  have "i = j" if "i < length devs" "j < length devs" "fst (devs ! i) = fst (devs ! j)" for i j
  proof -
    from assms that(1) obtain vm where a: "fmlookup m (fst (devs ! i)) = Some vm" "ID vm = int i"
      unfolding registered_def by blast
    from assms that(2) obtain vm' where b: "fmlookup m (fst (devs ! j)) = Some vm'" "ID vm' = int j"
      unfolding registered_def by blast
    from a b that(3) show "i = j" by simp
  qed
  then show ?thesis
    by (auto simp: distinct_conv_nth)
qed

lemma registered_snoc:
  assumes r: "registered devs m" and n: "fmlookup m n = None"
    and vm: "ID vm = int (length devs)" "VM.Name vm = n" "VM.Type vm = t"
  shows "registered (devs @ [(n, t)]) (fmupd n vm m)"
proof -
  have nin: "n \<notin> fst ` set devs"
    using r n unfolding registered_def by (metis fmdom'_notI)
  have dom: "fmdom' (fmupd n vm m) = fst ` set (devs @ [(n, t)])"
    using r unfolding registered_def by auto
  have idx: "\<exists>vm'. fmlookup (fmupd n vm m) (fst ((devs @ [(n, t)]) ! i)) = Some vm'
            \<and> ID vm' = int i \<and> VM.Name vm' = fst ((devs @ [(n, t)]) ! i)
            \<and> VM.Type vm' = snd ((devs @ [(n, t)]) ! i)"
    if "i < length (devs @ [(n, t)])" for i
  proof (cases "i < length devs")
    case True
    then have ne: "fst (devs ! i) \<noteq> n" using nin by (metis image_eqI nth_mem)
    from r True obtain vm' where "fmlookup m (fst (devs ! i)) = Some vm'" "ID vm' = int i"
      "VM.Name vm' = fst (devs ! i)" "VM.Type vm' = snd (devs ! i)"
      unfolding registered_def by blast
    with True ne show ?thesis by (simp add: nth_append)
  next
    case False
    with that have "i = length devs" by simp
    with vm show ?thesis by simp
  qed
  from dom idx show ?thesis unfolding registered_def by blast
qed

lemma registerLoop_registered:
  assumes mk: "\<And>n v. ID (mk n v) = v \<and> VM.Name (mk n v) = n \<and> VM.Type (mk n v) = t"
  shows "registered devs m \<Longrightarrow> v = int (length devs) \<Longrightarrow> registerLoop mk ns m v = Inr (m', v')
    \<Longrightarrow> registered (devs @ map (\<lambda>n. (n, t)) ns) m' \<and> v' = int (length devs + length ns)"
proof (induction ns arbitrary: devs m v)
  case Nil
  then show ?case by simp
next
  case (Cons n ns)
  from Cons.prems(3) have none: "fmlookup m n = None"
    by (auto split: if_splits)
  with Cons.prems(3) have run: "registerLoop mk ns (fmupd n (mk n v) m) (v + 1) = Inr (m', v')"
    by simp
  have r1: "registered (devs @ [(n, t)]) (fmupd n (mk n v) m)"
    using registered_snoc [OF Cons.prems(1) none, of "mk n v" t] mk Cons.prems(2) by simp
  have v1: "v + 1 = int (length (devs @ [(n, t)]))" using Cons.prems(2) by simp
  from Cons.IH [OF r1 v1 run] show ?case by simp
qed


lemma registerLoop_error: "registerLoop mk ns m v = Inl e \<Longrightarrow> \<exists>n. e = DuplicateName n"
  by (induction ns arbitrary: m v) (auto split: if_splits)

lemma registerLoop_count:
  "registerLoop mk ns m v = Inr (m', v') \<Longrightarrow> v' = v + int (length ns)"
proof (induction ns arbitrary: m v)
  case Nil
  then show ?case by simp
next
  case (Cons n ns)
  from Cons.prems have "registerLoop mk ns (fmupd n (mk n v) m) (v + 1) = Inr (m', v')"
    by (auto split: if_splits)
  from Cons.IH [OF this] show ?case by simp
qed

lemma registered_empty: "registered [] fmempty"
  by (simp add: registered_def)

lemma registered_dom: "registered devs m \<Longrightarrow> fmdom' m = set (map fst devs)"
  by (simp add: registered_def)

lemma assignVMs_Inr:
  assumes "assignVMs k data = Inr (m, v)"
  shows "length (controlNames data) = 1 \<and> registered (devices data) m
         \<and> v = int (length (devices data))"
proof -
  let ?cs = "controlNames data" and ?ps = "serverNames data" and ?sw = "switchNames data"
  from assms obtain m1 v1 where c: "registerLoop (controlVM k) ?cs fmempty 0 = Inr (m1, v1)"
    unfolding assignVMs_def controlLoop_register controlNames_def
    by (auto split: sum.splits prod.splits)
  have v1: "v1 = int (length ?cs)" using registerLoop_count [OF c] by simp
  from assms c have chk: "v1 \<noteq> 0" "\<not> v1 > 1"
    unfolding assignVMs_def controlLoop_register controlNames_def
    by (auto split: if_splits)
  with v1 have "length ?cs \<noteq> 0" "\<not> length ?cs > 1" by simp_all
  then have one: "length ?cs = 1" by linarith
  from assms c chk obtain m2 v2 where s: "registerLoop (serverVM k) ?ps m1 v1 = Inr (m2, v2)"
      and w: "registerLoop switchVM ?sw m2 v2 = Inr (m, v)"
    unfolding assignVMs_def controlLoop_register controlNames_def serverLoop_register
      serverNames_def switchLoop_register switchNames_def
    by (auto split: sum.splits prod.splits if_splits)
  have r1: "registered ([] @ map (\<lambda>n. (n, VMTypeControl)) ?cs) m1 \<and> v1 = int (length [] + length ?cs)"
    using registerLoop_registered [where mk = "controlVM k" and t = VMTypeControl and devs = "[]"
        and m = fmempty and v = 0 and ns = ?cs and m' = m1 and v' = v1, OF _ registered_empty _ c]
    by (simp add: controlVM_def)
  then have r1': "registered (map (\<lambda>n. (n, VMTypeControl)) ?cs) m1"
    and v1': "v1 = int (length (map (\<lambda>n. (n, VMTypeControl)) ?cs))" by simp_all
  have r2: "registered (map (\<lambda>n. (n, VMTypeControl)) ?cs @ map (\<lambda>n. (n, VMTypeServer)) ?ps) m2
      \<and> v2 = int (length (map (\<lambda>n. (n, VMTypeControl)) ?cs) + length ?ps)"
    using registerLoop_registered [where mk = "serverVM k" and t = VMTypeServer and ns = ?ps
        and m' = m2 and v' = v2, OF _ r1' v1' s]
    by (simp add: serverVM_def)
  then have r2': "registered (map (\<lambda>n. (n, VMTypeControl)) ?cs @ map (\<lambda>n. (n, VMTypeServer)) ?ps) m2"
    and v2': "v2 = int (length (map (\<lambda>n. (n, VMTypeControl)) ?cs @ map (\<lambda>n. (n, VMTypeServer)) ?ps))"
    by simp_all
  have r3: "registered ((map (\<lambda>n. (n, VMTypeControl)) ?cs @ map (\<lambda>n. (n, VMTypeServer)) ?ps)
        @ map (\<lambda>n. (n, VMTypeSwitchVS)) ?sw) m
      \<and> v = int (length (map (\<lambda>n. (n, VMTypeControl)) ?cs @ map (\<lambda>n. (n, VMTypeServer)) ?ps)
          + length ?sw)"
    using registerLoop_registered [where mk = switchVM and t = VMTypeSwitchVS and ns = ?sw
        and m' = m and v' = v, OF _ r2' v2' w]
    by (simp add: switchVM_def)
  with one show ?thesis by (simp add: devices_def)
qed

lemma map_fst_devices: "map fst (devices data) = deviceNames data"
  by (simp add: devices_def deviceNames_def comp_def)




lemma keeps_refl: "keeps m m"
  by (simp add: keeps_def)

lemma keepsD:
  assumes "keeps m m'" and "fmlookup m n = Some vm"
  obtains vm' where "fmlookup m' n = Some vm'" "ID vm' = ID vm" "VM.Name vm' = VM.Name vm"
    "VM.Type vm' = VM.Type vm"
    "\<And>i x. fmlookup (Interfaces vm) i = Some x \<Longrightarrow> fmlookup (Interfaces vm') i = Some x"
  using assms unfolding keeps_def by blast

lemma keeps_dom: "keeps m m' \<Longrightarrow> fmdom' m' = fmdom' m"
  by (simp add: keeps_def)

lemma keeps_trans:
  assumes ab: "keeps a b" and bc: "keeps b c"
  shows "keeps a c"
proof -
  have "\<exists>vm'. fmlookup c n = Some vm' \<and> ID vm' = ID vm \<and> VM.Name vm' = VM.Name vm
               \<and> VM.Type vm' = VM.Type vm
               \<and> (\<forall>i x. fmlookup (Interfaces vm) i = Some x
                     \<longrightarrow> fmlookup (Interfaces vm') i = Some x)"
    if h: "fmlookup a n = Some vm" for n vm
  proof -
    from keepsD [OF ab h] obtain vb where vb: "fmlookup b n = Some vb" "ID vb = ID vm"
      "VM.Name vb = VM.Name vm" "VM.Type vb = VM.Type vm"
      "\<And>i x. fmlookup (Interfaces vm) i = Some x \<Longrightarrow> fmlookup (Interfaces vb) i = Some x"
      by blast
    from keepsD [OF bc vb(1)] obtain vc where vc: "fmlookup c n = Some vc" "ID vc = ID vb"
      "VM.Name vc = VM.Name vb" "VM.Type vc = VM.Type vb"
      "\<And>i x. fmlookup (Interfaces vb) i = Some x \<Longrightarrow> fmlookup (Interfaces vc) i = Some x"
      by blast
    from vb vc show ?thesis by simp
  qed
  moreover have "fmdom' c = fmdom' a" using keeps_dom [OF ab] keeps_dom [OF bc] by simp
  ultimately show ?thesis unfolding keeps_def by blast
qed

lemma AddLink_Inr:
  assumes "AddLink k c m local dest conn = Inr m'"
  shows "\<exists>l localVM idx d X. local = Some l \<and> fmlookup m (DeviceName l) = Some localVM
          \<and> portIdForName (LocalPortName l) = Inr idx \<and> destOf m l dest = Inr d
          \<and> fmlookup (Interfaces localVM) idx = None
          \<and> m' = fmupd (DeviceName l) (localVM\<lparr>Interfaces := fmupd idx X (Interfaces localVM)\<rparr>) m
          \<and> VMInterface.Connection X = conn
          \<and> (fmlookup (Links c) (PortName l) = None \<longrightarrow>
               X = \<lparr>VMInterface.Connection = conn,
                    Netdev = udpNetdev (ifacePortFor k localVM idx) @
                      (case d of None \<Rightarrow> []
                       | Some (destVM, destPortID) \<Rightarrow> localaddrSuffix (ifacePortFor k destVM destPortID)),
                    Passthrough = []\<rparr>)"
proof -
  from assms obtain l where l: "local = Some l"
    unfolding AddLink_def by (cases local) simp_all
  from assms l obtain localVM where vm: "fmlookup m (DeviceName l) = Some localVM"
    unfolding AddLink_def by (cases "fmlookup m (DeviceName l)") simp_all
  from assms l vm obtain idx where idx: "portIdForName (LocalPortName l) = Inr idx"
    unfolding AddLink_def by (cases "portIdForName (LocalPortName l)") simp_all
  from assms l vm idx obtain d where d: "destOf m l dest = Inr d"
    unfolding AddLink_def by (cases "destOf m l dest") simp_all
  from assms l vm idx d have free: "fmlookup (Interfaces localVM) idx = None"
    unfolding AddLink_def by (simp split: if_splits)
  show ?thesis
  proof (cases "fmlookup (Links c) (PortName l)")
    case None
    with assms l vm idx d free show ?thesis
      unfolding AddLink_def by simp
  next
    case (Some pci)
    with assms l vm idx d free have "pci \<noteq> []"
      unfolding AddLink_def by (simp split: if_splits)
    with Some assms l vm idx d free
    have "m' = fmupd (DeviceName l) (localVM\<lparr>Interfaces := fmupd idx
             \<lparr>VMInterface.Connection = conn, Netdev = [], Passthrough = pci\<rparr>
             (Interfaces localVM)\<rparr>) m"
      unfolding AddLink_def by simp
    with l vm idx d free Some show ?thesis by force
  qed
qed

lemma keeps_update:
  assumes "fmlookup m n = Some vm" and "fmlookup (Interfaces vm) idx = None"
  shows "keeps m (fmupd n (vm\<lparr>Interfaces := fmupd idx X (Interfaces vm)\<rparr>) m)"
  using assms unfolding keeps_def by (auto simp: fmlookup_dom'_iff)

lemma AddLink_keeps: "AddLink k c m local dest conn = Inr m' \<Longrightarrow> keeps m m'"
  using AddLink_Inr keeps_update by blast

lemma linkLoop_keeps: "linkLoop k c conn links m = Inr m' \<Longrightarrow> keeps m m'"
proof (induction links arbitrary: m)
  case Nil
  then show ?case by (simp add: keeps_refl)
next
  case (Cons link rest)
  from Cons.prems obtain m1 m2 where
    a: "AddLink k c m (fst link) (snd link) conn = Inr m1" and
    b: "AddLink k c m1 (snd link) (fst link) conn = Inr m2" and
    r: "linkLoop k c conn rest m2 = Inr m'"
    by (auto split: sum.splits)
  from keeps_trans [OF keeps_trans [OF AddLink_keeps [OF a] AddLink_keeps [OF b]] Cons.IH [OF r]]
  show ?case .
qed

lemma connLoop_keeps: "connLoop k c conns m = Inr m' \<Longrightarrow> keeps m m'"
proof (induction conns arbitrary: m)
  case Nil
  then show ?case by (simp add: keeps_refl)
next
  case (Cons conn rest)
  from Cons.prems obtain links m1 where
    a: "connLinks conn = Inr links" and
    b: "linkLoop k c (Connection.Name conn) links m = Inr m1" and
    r: "connLoop k c rest m1 = Inr m'"
    by (auto split: sum.splits)
  from keeps_trans [OF linkLoop_keeps [OF b] Cons.IH [OF r]] show ?case .
qed

lemma fillVM_keeps: "keeps m (fmmap fillVM m)"
  unfolding keeps_def
  by (auto simp: fmlookup_dom'_iff fillVM_def fillGaps_lookup)

lemma registered_keeps:
  assumes r: "registered devs m" and k: "keeps m m'"
  shows "registered devs m'"
proof -
  have "\<exists>vm. fmlookup m' (fst (devs ! i)) = Some vm
            \<and> ID vm = int i \<and> VM.Name vm = fst (devs ! i) \<and> VM.Type vm = snd (devs ! i)"
    if "i < length devs" for i
  proof -
    from r that obtain vm where vm: "fmlookup m (fst (devs ! i)) = Some vm" "ID vm = int i"
      "VM.Name vm = fst (devs ! i)" "VM.Type vm = snd (devs ! i)"
      unfolding registered_def by blast
    from keepsD [OF k vm(1)] vm show ?thesis by metis
  qed
  moreover have "fmdom' m' = fst ` set devs"
    using r keeps_dom [OF k] by (simp add: registered_def)
  ultimately show ?thesis unfolding registered_def by blast
qed

lemma NewVMManager_keeps:
  assumes "NewVMManager k c data = Inr mngr"
  shows "\<exists>m v. assignVMs k data = Inr (m, v) \<and> keeps m (vms mngr)"
proof -
  from NewVMManager_vms [OF assms] obtain m v m' where
    a: "assignVMs k data = Inr (m, v)" and b: "connLoop k c (ConnectionAll data) m = Inr m'"
    and e: "vms mngr = fmmap fillVM m'" by blast
  from connLoop_keeps [OF b] fillVM_keeps [of m'] e have "keeps m (vms mngr)"
    using keeps_trans by simp
  with a show ?thesis by blast
qed

lemma registered_ids:
  assumes "registered devs m"
  shows "ID ` fmran' m = {0 ..< int (length devs)}"
proof (rule set_eqI, rule iffI)
  fix x assume "x \<in> ID ` fmran' m"
  then obtain vm n where vm: "fmlookup m n = Some vm" "x = ID vm"
    by (auto simp: fmran'_def)
  then have "n \<in> fst ` set devs" using assms unfolding registered_def by (metis fmdom'I)
  then obtain i where i: "i < length devs" "n = fst (devs ! i)"
    by (metis imageE in_set_conv_nth)
  moreover from assms i(1) obtain vm' where "fmlookup m (fst (devs ! i)) = Some vm'" "ID vm' = int i"
    unfolding registered_def by blast
  ultimately have "ID vm = int i" using vm by simp
  with i vm show "x \<in> {0 ..< int (length devs)}" by simp
next
  fix x assume "x \<in> {0 ..< int (length devs)}"
  then have "nat x < length devs" "int (nat x) = x" by auto
  with assms obtain vm where "fmlookup m (fst (devs ! nat x)) = Some vm" "ID vm = x"
    unfolding registered_def by metis
  then show "x \<in> ID ` fmran' m" by (auto simp: fmran'_def intro!: image_eqI [where x = vm])
qed



lemma ifacePortFor_ID: "ID vm = ID vm' \<Longrightarrow> ifacePortFor k vm i = ifacePortFor k vm' i"
  by (simp add: ifacePortFor_def)

lemma linked_keeps:
  assumes l: "linked k conn a b m" and kp: "keeps m m'"
  shows "linked k conn a b m'"
proof -
  from l obtain vmA vmB iA iB where
    h: "fmlookup m (DeviceName a) = Some vmA" "fmlookup m (DeviceName b) = Some vmB"
      "portIdForName (LocalPortName a) = Inr iA" "portIdForName (LocalPortName b) = Inr iB"
      "fmlookup (Interfaces vmA) iA
         = Some (pairedInterface conn (ifacePortFor k vmA iA) (ifacePortFor k vmB iB))"
      "fmlookup (Interfaces vmB) iB
         = Some (pairedInterface conn (ifacePortFor k vmB iB) (ifacePortFor k vmA iA))"
    unfolding linked_def by blast
  from keepsD [OF kp h(1)] obtain vmA' where
    a: "fmlookup m' (DeviceName a) = Some vmA'" "ID vmA' = ID vmA"
      "\<And>i x. fmlookup (Interfaces vmA) i = Some x \<Longrightarrow> fmlookup (Interfaces vmA') i = Some x"
    by blast
  from keepsD [OF kp h(2)] obtain vmB' where
    b: "fmlookup m' (DeviceName b) = Some vmB'" "ID vmB' = ID vmB"
      "\<And>i x. fmlookup (Interfaces vmB) i = Some x \<Longrightarrow> fmlookup (Interfaces vmB') i = Some x"
    by blast
  have pa: "ifacePortFor k vmA' iA = ifacePortFor k vmA iA"
    and pb: "ifacePortFor k vmB' iB = ifacePortFor k vmB iB"
    using a(2) b(2) by (simp_all add: ifacePortFor_def)
  from a(3) [OF h(5)] b(3) [OF h(6)] a(1) b(1) h(3,4) pa pb show ?thesis
    unfolding linked_def by auto
qed

lemma destOf_Some:
  assumes "destOf m l (Some r) = Inr d"
  shows "\<exists>vmR iR. d = Some (vmR, iR) \<and> portIdForName (LocalPortName r) = Inr iR
           \<and> fmlookup m (DeviceName r) = Some vmR"
  using assms unfolding destOf_def by (auto split: sum.splits option.splits)

lemma pairedInterface_eq:
  "\<lparr>VMInterface.Connection = conn,
     Netdev = udpNetdev own @ (case Some (vm, i) of None \<Rightarrow> []
        | Some (destVM, destPortID) \<Rightarrow> localaddrSuffix (ifacePortFor k destVM destPortID)),
     Passthrough = []\<rparr>
   = pairedInterface conn own (ifacePortFor k vm i)"
  by (simp add: pairedInterface_def udpNetdev_def localaddrSuffix_def)

lemma AddLink_side:
  assumes a: "AddLink k c m (Some l) (Some r) conn = Inr m1"
    and nl: "fmlookup (Links c) (PortName l) = None"
  shows "\<exists>vmL vmR iL iR vmL1. fmlookup m (DeviceName l) = Some vmL
           \<and> fmlookup m (DeviceName r) = Some vmR
           \<and> portIdForName (LocalPortName l) = Inr iL \<and> portIdForName (LocalPortName r) = Inr iR
           \<and> fmlookup m1 (DeviceName l) = Some vmL1
           \<and> fmlookup (Interfaces vmL1) iL
               = Some (pairedInterface conn (ifacePortFor k vmL iL) (ifacePortFor k vmR iR))"
proof -
  from AddLink_Inr [OF a] obtain localVM idx d X where
    h: "fmlookup m (DeviceName l) = Some localVM" "portIdForName (LocalPortName l) = Inr idx"
      "destOf m l (Some r) = Inr d"
      "m1 = fmupd (DeviceName l) (localVM\<lparr>Interfaces := fmupd idx X (Interfaces localVM)\<rparr>) m"
      "fmlookup (Links c) (PortName l) = None \<longrightarrow>
         X = \<lparr>VMInterface.Connection = conn,
              Netdev = udpNetdev (ifacePortFor k localVM idx) @
                (case d of None \<Rightarrow> []
                 | Some (destVM, destPortID) \<Rightarrow> localaddrSuffix (ifacePortFor k destVM destPortID)),
              Passthrough = []\<rparr>"
    by auto
  from destOf_Some [OF h(3)] obtain vmR iR where
    d: "d = Some (vmR, iR)" "portIdForName (LocalPortName r) = Inr iR"
      "fmlookup m (DeviceName r) = Some vmR"
    by blast
  from h(5) nl d(1) have X: "X = pairedInterface conn (ifacePortFor k localVM idx) (ifacePortFor k vmR iR)"
    by (simp only: pairedInterface_eq)
  from h d X show ?thesis by simp
qed

lemma AddLink_both:
  assumes a: "AddLink k c m (Some l) (Some r) conn = Inr m1"
    and b: "AddLink k c m1 (Some r) (Some l) conn = Inr m2"
    and nl: "fmlookup (Links c) (PortName l) = None"
    and nr: "fmlookup (Links c) (PortName r) = None"
  shows "linked k conn l r m2"
proof -
  from AddLink_side [OF a nl] obtain vmL vmR iL iR vmL1 where
    s1: "fmlookup m (DeviceName l) = Some vmL" "fmlookup m (DeviceName r) = Some vmR"
      "portIdForName (LocalPortName l) = Inr iL" "portIdForName (LocalPortName r) = Inr iR"
      "fmlookup m1 (DeviceName l) = Some vmL1"
      "fmlookup (Interfaces vmL1) iL
         = Some (pairedInterface conn (ifacePortFor k vmL iL) (ifacePortFor k vmR iR))"
    by blast
  from AddLink_side [OF b nr] obtain vmR' vmL' iR' iL' vmR2 where
    s2: "fmlookup m1 (DeviceName r) = Some vmR'" "fmlookup m1 (DeviceName l) = Some vmL'"
      "portIdForName (LocalPortName r) = Inr iR'" "portIdForName (LocalPortName l) = Inr iL'"
      "fmlookup m2 (DeviceName r) = Some vmR2"
      "fmlookup (Interfaces vmR2) iR'
         = Some (pairedInterface conn (ifacePortFor k vmR' iR') (ifacePortFor k vmL' iL'))"
    by blast
  have k1: "keeps m m1" and k2: "keeps m1 m2"
    using AddLink_keeps [OF a] AddLink_keeps [OF b] by simp_all
  from s1(3,4) s2(3,4) have i: "iR' = iR" "iL' = iL" by simp_all
  from s1(5) s2(2) have vl: "vmL' = vmL1" by simp
  from keepsD [OF k1 s1(1)] s1(5) have idL1: "ID vmL1 = ID vmL" by auto
  from keepsD [OF k1 s1(2)] s2(1) have idR': "ID vmR' = ID vmR" by auto
  from keepsD [OF k2 s1(5)] obtain vmL2 where
    l2: "fmlookup m2 (DeviceName l) = Some vmL2" "ID vmL2 = ID vmL1"
      "\<And>i x. fmlookup (Interfaces vmL1) i = Some x \<Longrightarrow> fmlookup (Interfaces vmL2) i = Some x"
    by blast
  from keepsD [OF k2 s2(1)] s2(5) have idR2: "ID vmR2 = ID vmR'" by auto
  have pL: "ifacePortFor k vmL2 iL = ifacePortFor k vmL iL"
    "ifacePortFor k vmL' iL = ifacePortFor k vmL iL"
    using l2(2) idL1 vl by (simp_all add: ifacePortFor_def)
  have pR: "ifacePortFor k vmR2 iR = ifacePortFor k vmR iR"
    "ifacePortFor k vmR' iR = ifacePortFor k vmR iR"
    using idR2 idR' by (simp_all add: ifacePortFor_def)
  from l2(3) [OF s1(6)] s2(6) l2(1) s2(5) s1(3,4) i pL pR show ?thesis
    unfolding linked_def by auto
qed

lemma linkLoop_linked:
  assumes "linkLoop k c conn links m = Inr m'" and "(Some a, Some b) \<in> set links"
    and "fmlookup (Links c) (PortName a) = None" and "fmlookup (Links c) (PortName b) = None"
  shows "linked k conn a b m'"
  using assms(1,2)
proof (induction links arbitrary: m)
  case Nil
  then show ?case by simp
next
  case (Cons link rest)
  from Cons.prems(1) obtain m1 m2 where
    x: "AddLink k c m (fst link) (snd link) conn = Inr m1" and
    y: "AddLink k c m1 (snd link) (fst link) conn = Inr m2" and
    r: "linkLoop k c conn rest m2 = Inr m'"
    by (auto split: sum.splits)
  show ?case
  proof (cases "link = (Some a, Some b)")
    case True
    with x y have "linked k conn a b m2"
      using AddLink_both [OF _ _ assms(3,4)] by simp
    then show ?thesis using linkLoop_keeps [OF r] by (rule linked_keeps)
  next
    case False
    with Cons.prems(2) have "(Some a, Some b) \<in> set rest" by simp
    from Cons.IH [OF r this] show ?thesis .
  qed
qed

lemma connLoop_linked:
  assumes "connLoop k c conns m = Inr m'" and "conn \<in> set conns"
    and "connLinks conn = Inr links" and "(Some a, Some b) \<in> set links"
    and "fmlookup (Links c) (PortName a) = None" and "fmlookup (Links c) (PortName b) = None"
  shows "linked k (Connection.Name conn) a b m'"
  using assms(1,2)
proof (induction conns arbitrary: m)
  case Nil
  then show ?case by simp
next
  case (Cons x rest)
  from Cons.prems(1) obtain ls m1 where
    e: "connLinks x = Inr ls" and
    l: "linkLoop k c (Connection.Name x) ls m = Inr m1" and
    r: "connLoop k c rest m1 = Inr m'"
    by (auto split: sum.splits)
  show ?case
  proof (cases "x = conn")
    case True
    with e assms(3) have "ls = links" by simp
    with l True have "linked k (Connection.Name conn) a b m1"
      using linkLoop_linked [OF _ assms(4,5,6)] by simp
    then show ?thesis using connLoop_keeps [OF r] by (rule linked_keeps)
  next
    case False
    with Cons.prems(2) have "conn \<in> set rest" by simp
    from Cons.IH [OF r this] show ?thesis .
  qed
qed

lemma NewVMManager_linked:
  assumes "NewVMManager k c data = Inr mngr" and "conn \<in> set (ConnectionAll data)"
    and "connLinks conn = Inr links" and "(Some a, Some b) \<in> set links"
    and "fmlookup (Links c) (PortName a) = None" and "fmlookup (Links c) (PortName b) = None"
  shows "linked k (Connection.Name conn) a b (vms mngr)"
proof -
  from NewVMManager_vms [OF assms(1)] obtain m v m' where
    b: "connLoop k c (ConnectionAll data) m = Inr m'" and e: "vms mngr = fmmap fillVM m'"
    by blast
  from connLoop_linked [OF b assms(2-6)] have "linked k (Connection.Name conn) a b m'" .
  with fillVM_keeps [of m'] e show ?thesis by (simp add: linked_keeps)
qed

lemma NewVMManager_registered:
  assumes "NewVMManager k c data = Inr mngr"
  shows "length (controlNames data) = 1 \<and> distinct (deviceNames data)
         \<and> registered (devices data) (vms mngr)
         \<and> ID ` fmran' (vms mngr) = {0 ..< int (length (devices data))}"
proof -
  from NewVMManager_keeps [OF assms] obtain m v where
    a: "assignVMs k data = Inr (m, v)" and kp: "keeps m (vms mngr)" by blast
  from assignVMs_Inr [OF a] have one: "length (controlNames data) = 1"
    and r: "registered (devices data) m" by simp_all
  from registered_keeps [OF r kp] have r': "registered (devices data) (vms mngr)" .
  from registered_distinct [OF r'] have "distinct (deviceNames data)"
    by (simp add: map_fst_devices)
  with one r' registered_ids [OF r'] show ?thesis by simp
qed






lemma exWiring_names:
  "controlNames exWiring = [''control-1'']"
  "deviceNames exWiring = [''control-1'', ''server-1'', ''switch-1'']"
  "devices exWiring =
     [(''control-1'', VMTypeControl), (''server-1'', VMTypeServer), (''switch-1'', VMTypeSwitchVS)]"
  by (simp_all add: controlNames_def deviceNames_def devices_def serverNames_def
      switchNames_def exWiring_def exServers_def exSwitches_def)

lemma registered_nth:
  "registered devs m \<Longrightarrow> i < length devs
     \<Longrightarrow> \<exists>vm. fmlookup m (fst (devs ! i)) = Some vm \<and> ID vm = int i"
  unfolding registered_def by blast

lemma exWiring_positions:
  assumes "registered (devices exWiring) m"
  shows "\<exists>vm. fmlookup m ''control-1'' = Some vm \<and> ID vm = 0"
    and "\<exists>vm. fmlookup m ''server-1'' = Some vm \<and> ID vm = 1"
    and "\<exists>vm. fmlookup m ''switch-1'' = Some vm \<and> ID vm = 2"
  using registered_nth [OF assms, of 0] registered_nth [OF assms, of 1]
    registered_nth [OF assms, of 2]
  by (simp_all add: exWiring_names)



lemma ifacePortFor_in_range:
  assumes "minInt \<le> IF_PORT_BASE k + ID vm * IF_PORT_VM_ID_MULT k + iface * IF_PORT_PORT_ID_MULT k"
    and "IF_PORT_BASE k + ID vm * IF_PORT_VM_ID_MULT k + iface * IF_PORT_PORT_ID_MULT k \<le> maxInt"
  shows "ifacePortFor k vm iface
           = IF_PORT_BASE k + ID vm * IF_PORT_VM_ID_MULT k + iface * IF_PORT_PORT_ID_MULT k"
  unfolding ifacePortFor_def using assms by (rule wrap64_id)

text \<open>
  C6. \<open>a\<close> and \<open>b\<close> are the two ports of a link of a connection of the wiring, none of
  them with a passthrough entry in the configuration, and the compilation succeeded. Then
  the interface of \<open>a\<close> on its VM and the interface of \<open>b\<close> on its VM both name the
  connection; the interface of \<open>a\<close> has the port of \<open>a\<close> after \<open>udp=\<close> and the port of \<open>b\<close>
  after \<open>localaddr=\<close>, the interface of \<open>b\<close> has them the other way round; and the port of
  an end is \<open>IF_PORT_BASE + ID * IF_PORT_VM_ID_MULT + index * IF_PORT_PORT_ID_MULT\<close> in the
  arithmetic of \<open>int\<close>, which is the sum itself when the sum is an \<open>int\<close>.
\<close>

theorem link_interfaces_paired:
  assumes "NewVMManager k c data = Inr mngr" and "conn \<in> set (ConnectionAll data)"
    and "connLinks conn = Inr links" and "(Some a, Some b) \<in> set links"
    and "fmlookup (Links c) (PortName a) = None" and "fmlookup (Links c) (PortName b) = None"
  shows "\<exists>vmA vmB iA iB.
      fmlookup (vms mngr) (DeviceName a) = Some vmA
      \<and> fmlookup (vms mngr) (DeviceName b) = Some vmB
      \<and> portIdForName (LocalPortName a) = Inr iA
      \<and> portIdForName (LocalPortName b) = Inr iB
      \<and> fmlookup (Interfaces vmA) iA =
          Some \<lparr>VMInterface.Connection = Connection.Name conn,
                Netdev = ''socket,udp=127.0.0.1:'' @ showInt (ifacePortFor k vmA iA)
                  @ '',localaddr=127.0.0.1:'' @ showInt (ifacePortFor k vmB iB),
                Passthrough = []\<rparr>
      \<and> fmlookup (Interfaces vmB) iB =
          Some \<lparr>VMInterface.Connection = Connection.Name conn,
                Netdev = ''socket,udp=127.0.0.1:'' @ showInt (ifacePortFor k vmB iB)
                  @ '',localaddr=127.0.0.1:'' @ showInt (ifacePortFor k vmA iA),
                Passthrough = []\<rparr>
      \<and> ifacePortFor k vmA iA
          = wrap64 (IF_PORT_BASE k + ID vmA * IF_PORT_VM_ID_MULT k + iA * IF_PORT_PORT_ID_MULT k)
      \<and> ifacePortFor k vmB iB
          = wrap64 (IF_PORT_BASE k + ID vmB * IF_PORT_VM_ID_MULT k + iB * IF_PORT_PORT_ID_MULT k)
      \<and> (minInt \<le> IF_PORT_BASE k + ID vmA * IF_PORT_VM_ID_MULT k + iA * IF_PORT_PORT_ID_MULT k
           \<and> IF_PORT_BASE k + ID vmA * IF_PORT_VM_ID_MULT k + iA * IF_PORT_PORT_ID_MULT k \<le> maxInt
          \<longrightarrow> ifacePortFor k vmA iA
               = IF_PORT_BASE k + ID vmA * IF_PORT_VM_ID_MULT k + iA * IF_PORT_PORT_ID_MULT k)
      \<and> (minInt \<le> IF_PORT_BASE k + ID vmB * IF_PORT_VM_ID_MULT k + iB * IF_PORT_PORT_ID_MULT k
           \<and> IF_PORT_BASE k + ID vmB * IF_PORT_VM_ID_MULT k + iB * IF_PORT_PORT_ID_MULT k \<le> maxInt
          \<longrightarrow> ifacePortFor k vmB iB
               = IF_PORT_BASE k + ID vmB * IF_PORT_VM_ID_MULT k + iB * IF_PORT_PORT_ID_MULT k)"
proof -
  from NewVMManager_linked [OF assms] obtain vmA vmB iA iB where
    h: "fmlookup (vms mngr) (DeviceName a) = Some vmA"
      "fmlookup (vms mngr) (DeviceName b) = Some vmB"
      "portIdForName (LocalPortName a) = Inr iA" "portIdForName (LocalPortName b) = Inr iB"
      "fmlookup (Interfaces vmA) iA
         = Some (pairedInterface (Connection.Name conn) (ifacePortFor k vmA iA) (ifacePortFor k vmB iB))"
      "fmlookup (Interfaces vmB) iB
         = Some (pairedInterface (Connection.Name conn) (ifacePortFor k vmB iB) (ifacePortFor k vmA iA))"
    unfolding linked_def by blast
  have p: "ifacePortFor k vm i
      = wrap64 (IF_PORT_BASE k + ID vm * IF_PORT_VM_ID_MULT k + i * IF_PORT_PORT_ID_MULT k)" for vm i
    by (simp add: ifacePortFor_def)
  have q: "minInt \<le> IF_PORT_BASE k + ID vm * IF_PORT_VM_ID_MULT k + i * IF_PORT_PORT_ID_MULT k
           \<and> IF_PORT_BASE k + ID vm * IF_PORT_VM_ID_MULT k + i * IF_PORT_PORT_ID_MULT k \<le> maxInt
          \<longrightarrow> ifacePortFor k vm i
               = IF_PORT_BASE k + ID vm * IF_PORT_VM_ID_MULT k + i * IF_PORT_PORT_ID_MULT k" for vm i
    using ifacePortFor_in_range [of k vm i] by blast
  show ?thesis
    apply (rule exI [of _ vmA], rule exI [of _ vmB], rule exI [of _ iA], rule exI [of _ iB])
    apply (intro conjI)
    apply (rule h(1))
    apply (rule h(2))
    apply (rule h(3))
    apply (rule h(4))
    apply (simp only: h(5) pairedInterface_def)
    apply (simp only: h(6) pairedInterface_def)
    apply (rule p)
    apply (rule p)
    apply (rule q)
    apply (rule q)
    done
qed

lemma exWiring_links:
  "exUnbundled \<in> set (ConnectionAll exWiring)"
  "connLinks exUnbundled
     = Inr [(Some (exPort ''server-1'' ''port3''), Some (exPort ''switch-1'' ''Ethernet4''))]"
  "fmlookup (Links exConfig) (PortName (exPort ''server-1'' ''port3'')) = None"
  "fmlookup (Links exConfig) (PortName (exPort ''switch-1'' ''Ethernet4'')) = None"
  by (simp_all add: exWiring_def connLinks_def exUnbundled_def noSpec_def both_def exConfig_def)

lemma exPorts:
  "ifacePortFor exConsts vm 3 = 30003 + ID vm * 100"
  "ifacePortFor exConsts vm 5 = 30005 + ID vm * 100"
  if "0 \<le> ID vm" "ID vm < 10" for vm
  using that by (simp_all add: ifacePortFor_def exConsts_def wrap64_def)

lemma showInt_examples: "showInt 30103 = ''30103''" "showInt 30205 = ''30205''"
  by (simp_all add: showInt_def showPos.simps digitChar_simps)

theorem link_interfaces_paired_witness:
  "\<exists>mngr vmA vmB.
      NewVMManager exConsts exConfig exWiring = Inr mngr
      \<and> fmlookup (vms mngr) ''server-1'' = Some vmA
      \<and> fmlookup (vms mngr) ''switch-1'' = Some vmB
      \<and> fmlookup (Interfaces vmA) 3 =
          Some \<lparr>VMInterface.Connection = ''server-1--unbundled--switch-1'',
                Netdev = ''socket,udp=127.0.0.1:30103,localaddr=127.0.0.1:30205'',
                Passthrough = []\<rparr>
      \<and> fmlookup (Interfaces vmB) 5 =
          Some \<lparr>VMInterface.Connection = ''server-1--unbundled--switch-1'',
                Netdev = ''socket,udp=127.0.0.1:30205,localaddr=127.0.0.1:30103'',
                Passthrough = []\<rparr>"
proof -
  obtain mngr where c: "NewVMManager exConsts exConfig exWiring = Inr mngr"
    using exWiring_compiles by blast
  have l: "(Some (exPort ''server-1'' ''port3''), Some (exPort ''switch-1'' ''Ethernet4''))
      \<in> set [(Some (exPort ''server-1'' ''port3''), Some (exPort ''switch-1'' ''Ethernet4''))]"
    by simp
  from link_interfaces_paired [OF c exWiring_links(1,2) l exWiring_links(3,4)]
  obtain vmA vmB iA iB where
    h: "fmlookup (vms mngr) (DeviceName (exPort ''server-1'' ''port3'')) = Some vmA"
      "fmlookup (vms mngr) (DeviceName (exPort ''switch-1'' ''Ethernet4'')) = Some vmB"
      "portIdForName (LocalPortName (exPort ''server-1'' ''port3'')) = Inr iA"
      "portIdForName (LocalPortName (exPort ''switch-1'' ''Ethernet4'')) = Inr iB"
      "fmlookup (Interfaces vmA) iA =
          Some \<lparr>VMInterface.Connection = Connection.Name exUnbundled,
                Netdev = ''socket,udp=127.0.0.1:'' @ showInt (ifacePortFor exConsts vmA iA)
                  @ '',localaddr=127.0.0.1:'' @ showInt (ifacePortFor exConsts vmB iB),
                Passthrough = []\<rparr>"
      "fmlookup (Interfaces vmB) iB =
          Some \<lparr>VMInterface.Connection = Connection.Name exUnbundled,
                Netdev = ''socket,udp=127.0.0.1:'' @ showInt (ifacePortFor exConsts vmB iB)
                  @ '',localaddr=127.0.0.1:'' @ showInt (ifacePortFor exConsts vmA iA),
                Passthrough = []\<rparr>"
    by blast
  have dA: "DeviceName (exPort ''server-1'' ''port3'') = ''server-1''"
    and dB: "DeviceName (exPort ''switch-1'' ''Ethernet4'') = ''switch-1''"
    and pA: "LocalPortName (exPort ''server-1'' ''port3'') = ''port3''"
    and pB: "LocalPortName (exPort ''switch-1'' ''Ethernet4'') = ''Ethernet4''"
    and cn: "Connection.Name exUnbundled = ''server-1--unbundled--switch-1''"
    by (simp_all add: exPort_def exUnbundled_def)
  from h(3,4) have i: "iA = 3" "iB = 5"
    by (simp_all only: pA pB portId_examples sum.inject)
  from NewVMManager_registered [OF c] have r: "registered (devices exWiring) (vms mngr)" by simp
  from exWiring_positions(2,3) [OF r] h(1,2) have ids: "ID vmA = 1" "ID vmB = 2"
    by (simp_all add: dA dB)
  have ports: "ifacePortFor exConsts vmA 3 = 30103" "ifacePortFor exConsts vmB 5 = 30205"
    using exPorts [of vmA] exPorts [of vmB] ids by simp_all
  have nA: "fmlookup (Interfaces vmA) 3 =
          Some \<lparr>VMInterface.Connection = ''server-1--unbundled--switch-1'',
                Netdev = ''socket,udp=127.0.0.1:30103,localaddr=127.0.0.1:30205'',
                Passthrough = []\<rparr>"
    using h(5) unfolding i ports showInt_examples cn by simp
  have nB: "fmlookup (Interfaces vmB) 5 =
          Some \<lparr>VMInterface.Connection = ''server-1--unbundled--switch-1'',
                Netdev = ''socket,udp=127.0.0.1:30205,localaddr=127.0.0.1:30103'',
                Passthrough = []\<rparr>"
    using h(6) unfolding i ports showInt_examples cn by simp
  from c h(1,2) nA nB show ?thesis
    unfolding dA dB by blast
qed

section \<open>Phase B: properties\<close>

lemma attachScan_log_only:
  "Server.VPCAttachment srv \<noteq> None \<Longrightarrow>
     \<exists>more. attachScan cn atts (srv, logged) = (srv, logged @ more)"
proof (induction atts arbitrary: logged)
  case Nil
  then show ?case by simp
next
  case (Cons a atts)
  show ?case
  proof (cases "VPCAttachment.Connection a \<noteq> cn")
    case True
    with Cons show ?thesis by simp
  next
    case False
    from Cons.IH [OF Cons.prems, of "logged @ [SkippingMultipleVPCAttachments (Server.Name srv)]"]
    obtain more where "attachScan cn atts
        (srv, logged @ [SkippingMultipleVPCAttachments (Server.Name srv)])
      = (srv, (logged @ [SkippingMultipleVPCAttachments (Server.Name srv)]) @ more)"
      by blast
    with False Cons.prems show ?thesis by simp
  qed
qed

text \<open>
  The loop over the attachments never leaves the server without an attachment once one
  is bound to its connection: it keeps the first one.
\<close>

lemma attachScan_first:
  assumes "Server.VPCAttachment srv = None"
  shows "attachScan cn atts (srv, logged) = (srv1, logged1) \<Longrightarrow>
     (case filter (\<lambda>a. VPCAttachment.Connection a = cn) atts of
        [] \<Rightarrow> srv1 = srv \<and> logged1 = logged
      | a # rest \<Rightarrow> srv1 = srv\<lparr>Server.VPCAttachment := Some a, Subnet := SubnetName a\<rparr>
          \<and> (\<exists>more. logged1 = logged @ more))"
  using assms
proof (induction atts)
  case Nil
  then show ?case by simp
next
  case (Cons a atts)
  show ?case
  proof (cases "VPCAttachment.Connection a = cn")
    case False
    with Cons show ?thesis by simp
  next
    case True
    let ?s = "srv\<lparr>Server.VPCAttachment := Some a, Subnet := SubnetName a\<rparr>"
    have "Server.VPCAttachment ?s \<noteq> None" by simp
    from attachScan_log_only [OF this, of cn atts logged]
    obtain more where "attachScan cn atts (?s, logged) = (?s, logged @ more)" by blast
    with True Cons.prems show ?thesis by auto
  qed
qed

lemma attachScan_notice_attached:
  "attachScan cn atts (srv, logged) = (srv1, logged1)
     \<Longrightarrow> SkippingMultipleVPCAttachments n \<in> set logged1
     \<Longrightarrow> SkippingMultipleVPCAttachments n \<in> set logged \<or> Server.VPCAttachment srv1 \<noteq> None"
proof (induction atts arbitrary: srv logged)
  case Nil
  then show ?case by simp
next
  case (Cons a atts)
  show ?case
  proof (cases "VPCAttachment.Connection a \<noteq> cn")
    case True
    with Cons show ?thesis by simp
  next
    case bound: False
    show ?thesis
    proof (cases "Server.VPCAttachment srv \<noteq> None")
      case True
      from attachScan_log_only [OF True, of cn "a # atts" logged] Cons.prems(1)
      have "srv1 = srv" by auto
      with True show ?thesis by simp
    next
      case False
      with bound Cons.prems
      have "attachScan cn atts (srv\<lparr>Server.VPCAttachment := Some a, Subnet := SubnetName a\<rparr>, logged)
          = (srv1, logged1)" by simp
      from Cons.IH [OF this Cons.prems(2)] show ?thesis .
    qed
  qed
qed

lemma connScan_skip_notice:
  "connScan endpoints conns srv = SkipServer x
     \<Longrightarrow> x = SkippingMultipleServersInConnection (Server.Name srv)
         \<or> x = SkippingMultipleConnections (Server.Name srv)"
proof (induction conns arbitrary: srv)
  case Nil
  then show ?case by simp
next
  case (Cons some rest)
  show ?case
  proof (cases "Unbundled (Spec some) = None \<and> Bundled (Spec some) = None
      \<and> MCLAG (Spec some) = None")
    case True
    with Cons show ?thesis by simp
  next
    case False
    then obtain switches servers where e: "endpoints (Spec some) = Some (switches, servers)"
      using Cons.prems by (cases "endpoints (Spec some)") auto
    show ?thesis
    proof (cases "length servers \<noteq> 1")
      case True
      with False e Cons.prems show ?thesis by auto
    next
      case one: False
      show ?thesis
      proof (cases "Server.Name srv \<notin> set servers")
        case True
        with False e one Cons.prems Cons.IH [of srv] show ?thesis by auto
      next
        case mem: False
        show ?thesis
        proof (cases "Server.Connection srv \<noteq> None")
          case True
          with False e one mem Cons.prems show ?thesis by auto
        next
          case free: False
          let ?s = "srv\<lparr>ConnectedTo := switches, Server.Connection := Some some,
                          ConnectionType := connectionTypeOf (Spec some) (ConnectionType srv)\<rparr>"
          from False e one mem free Cons.prems have "connScan endpoints rest ?s = SkipServer x"
            by auto
          from Cons.IH [OF this] show ?thesis by simp
        qed
      qed
    qed
  qed
qed

lemma checkServer_notice_found:
  assumes "checkServer run endpoints parseCIDR mvms conns attachments vpcList server
             = Inr (found, notices)"
    and "SkippingMultipleVPCAttachments n \<in> set notices"
  shows "found \<noteq> None"
proof (rule ccontr)
  assume "\<not> found \<noteq> None"
  then have none: "found = None" by simp
  from assms(1,2) none have nc: "WiringServer.Type server \<noteq> ServerTypeControl"
    unfolding checkServer_def by (auto split: if_splits)
  from assms(1,2) none nc obtain vm where vm: "fmlookup mvms (WiringServer.Name server) = Some vm"
    unfolding checkServer_def by (cases "fmlookup mvms (WiringServer.Name server)") auto
  from assms(1,2) none nc vm obtain srv where
    cs: "connScan endpoints conns (newServer server vm) = Done srv"
    unfolding checkServer_def
    by (cases "connScan endpoints conns (newServer server vm)")
      (auto dest: connScan_skip_notice)
  from assms(1,2) none nc vm cs obtain conn where conn: "Server.Connection srv = Some conn"
    unfolding checkServer_def by (cases "Server.Connection srv") auto
  obtain srv1 logged where
    at: "attachScan (Connection.Name conn) attachments (srv, []) = (srv1, logged)"
    by (cases "attachScan (Connection.Name conn) attachments (srv, [])")
  show False
  proof (cases "Server.VPCAttachment srv1")
    case None
    with assms(1) nc vm cs conn at
    have "notices = logged @ [SkippingNoVPCAttachment (WiringServer.Name server)]"
      unfolding checkServer_def by simp
    with assms(2) have "SkippingMultipleVPCAttachments n \<in> set logged" by simp
    from attachScan_notice_attached [OF at this] None show False by simp
  next
    case (Some att)
    with assms(1) none nc vm cs conn at show False
      unfolding checkServer_def by (auto split: sum.splits)
  qed
qed

text \<open>
  C3 does not hold of the code. Whenever the body of the server loop logs that it skips a
  server for its several VPC attachments and returns without an error, it returns the
  server to be entered into the map: the \<open>continue\<close> after the notice goes on with the next
  attachment, not with the next server. On the example, a server whose connection has two
  attachments: the notice is logged, and the server is in the map with the first of them.
\<close>

theorem multiple_attachments_not_skipped:
  "(checkServer run endpoints parseCIDR mvms conns attachments vpcList server
       = Inr (found, notices)
     \<and> SkippingMultipleVPCAttachments n \<in> set notices \<longrightarrow> found \<noteq> None)
   \<and> (case phaseB exRun exEndpoints exParseCIDR exVMs exWiring [exAttach1, exAttach2]
             [exVPC1, exVPC2] of
         Inl e \<Rightarrow> False
       | Inr (servers, logged) \<Rightarrow>
           logged = [SkippingMultipleVPCAttachments ''server-1'', Found ''server-1'']
           \<and> map_option Server.VPCAttachment (fmlookup servers ''server-1'')
               = Some (Some exAttach1))"
proof -
  have a: "checkServer run endpoints parseCIDR mvms conns attachments vpcList server
       = Inr (found, notices)
     \<and> SkippingMultipleVPCAttachments n \<in> set notices \<longrightarrow> found \<noteq> None"
    using checkServer_notice_found by blast
  have b: "(case phaseB exRun exEndpoints exParseCIDR exVMs exWiring [exAttach1, exAttach2]
             [exVPC1, exVPC2] of
         Inl e \<Rightarrow> False
       | Inr (servers, logged) \<Rightarrow>
           logged = [SkippingMultipleVPCAttachments ''server-1'', Found ''server-1'']
           \<and> map_option Server.VPCAttachment (fmlookup servers ''server-1'')
               = Some (Some exAttach1))"
    by code_simp
  from a b show ?thesis by (rule conjI)
qed

lemma exCheckServer:
  "(case checkServer exRun exEndpoints exParseCIDR exVMs [exUnbundled] [exAttach1, exAttach2]
           [exVPC1, exVPC2] \<lparr>WiringServer.Name = ''server-1'', Type = ServerTypeDefault\<rparr> of
      Inl e \<Rightarrow> False
    | Inr (found, notices) \<Rightarrow>
        notices = [SkippingMultipleVPCAttachments ''server-1'', Found ''server-1''])"
  by code_simp

theorem multiple_attachments_not_skipped_witness:
  "\<exists>srv. checkServer exRun exEndpoints exParseCIDR exVMs [exUnbundled] [exAttach1, exAttach2]
       [exVPC1, exVPC2] \<lparr>WiringServer.Name = ''server-1'', Type = ServerTypeDefault\<rparr>
     = Inr (Some srv, [SkippingMultipleVPCAttachments ''server-1'', Found ''server-1''])"
proof -
  from exCheckServer obtain found where
    c: "checkServer exRun exEndpoints exParseCIDR exVMs [exUnbundled] [exAttach1, exAttach2]
          [exVPC1, exVPC2] \<lparr>WiringServer.Name = ''server-1'', Type = ServerTypeDefault\<rparr>
        = Inr (found, [SkippingMultipleVPCAttachments ''server-1'', Found ''server-1''])"
    by (auto split: sum.splits)
  have "SkippingMultipleVPCAttachments ''server-1''
      \<in> set [SkippingMultipleVPCAttachments ''server-1'', Found ''server-1'']"
    by simp
  with c multiple_attachments_not_skipped
    [of exRun exEndpoints exParseCIDR exVMs "[exUnbundled]" "[exAttach1, exAttach2]"
      "[exVPC1, exVPC2]" "\<lparr>WiringServer.Name = ''server-1'', Type = ServerTypeDefault\<rparr>"
      found "[SkippingMultipleVPCAttachments ''server-1'', Found ''server-1'']" "''server-1''"]
  have "found \<noteq> None" by blast
  with c show ?thesis by auto
qed

section \<open>Phase B: the servers it enters into the map\<close>

lemma connScan_fresh:
  "connScan endpoints conns srv = Done srv' \<Longrightarrow> fresh k srv \<Longrightarrow> fresh k srv'"
proof (induction conns arbitrary: srv)
  case Nil
  then show ?case by simp
next
  case (Cons some rest)
  show ?case
  proof (cases "Unbundled (Spec some) = None \<and> Bundled (Spec some) = None
      \<and> MCLAG (Spec some) = None")
    case True
    with Cons show ?thesis by simp
  next
    case False
    then obtain switches servers where e: "endpoints (Spec some) = Some (switches, servers)"
      using Cons.prems by (cases "endpoints (Spec some)") auto
    show ?thesis
    proof (cases "length servers \<noteq> 1")
      case True
      with False e Cons.prems show ?thesis by auto
    next
      case one: False
      show ?thesis
      proof (cases "Server.Name srv \<notin> set servers")
        case True
        with False e one Cons.prems Cons.IH [of srv] show ?thesis by auto
      next
        case mem: False
        show ?thesis
        proof (cases "Server.Connection srv \<noteq> None")
          case True
          with False e one mem Cons.prems show ?thesis by auto
        next
          case free: False
          let ?s = "srv\<lparr>ConnectedTo := switches, Server.Connection := Some some,
                          ConnectionType := connectionTypeOf (Spec some) (ConnectionType srv)\<rparr>"
          from False e one mem free Cons.prems(1) have r: "connScan endpoints rest ?s = Done srv'"
            by auto
          from Cons.prems(2) have "fresh k ?s" by (simp add: fresh_def)
          from Cons.IH [OF r this] show ?thesis .
        qed
      qed
    qed
  qed
qed

lemma attachScan_fresh:
  "attachScan cn atts (srv, logged) = (srv1, logged1) \<Longrightarrow> fresh k srv \<Longrightarrow> fresh k srv1"
proof (induction atts arbitrary: srv logged)
  case Nil
  then show ?case by simp
next
  case (Cons a atts)
  show ?case
  proof (cases "VPCAttachment.Connection a \<noteq> cn")
    case True
    with Cons show ?thesis by simp
  next
    case bound: False
    show ?thesis
    proof (cases "Server.VPCAttachment srv \<noteq> None")
      case True
      with bound Cons.prems(1) have "attachScan cn atts
          (srv, logged @ [SkippingMultipleVPCAttachments (Server.Name srv)]) = (srv1, logged1)"
        by simp
      from Cons.IH [OF this Cons.prems(2)] show ?thesis .
    next
      case False
      let ?s = "srv\<lparr>Server.VPCAttachment := Some a, Subnet := SubnetName a\<rparr>"
      from False bound Cons.prems(1) have r: "attachScan cn atts (?s, logged) = (srv1, logged1)"
        by simp
      from Cons.prems(2) have "fresh k ?s" by (simp add: fresh_def)
      from Cons.IH [OF r this] show ?thesis .
    qed
  qed
qed

lemma vpcScan_fresh:
  "vpcScan att vpcs srv = Inr srv' \<Longrightarrow> fresh k srv \<Longrightarrow> fresh k srv'"
proof (induction vpcs arbitrary: srv)
  case Nil
  then show ?case by simp
next
  case (Cons v vpcs)
  show ?case
  proof (cases "VPCName att \<noteq> VPC.Name v")
    case True
    with Cons show ?thesis by simp
  next
    case False
    with Cons.prems(1) have r: "vpcScan att vpcs (srv\<lparr>Server.VPC := Some v\<rparr>) = Inr srv'"
      by (simp split: if_splits)
    from Cons.prems(2) have "fresh k (srv\<lparr>Server.VPC := Some v\<rparr>)" by (simp add: fresh_def)
    from Cons.IH [OF r this] show ?thesis .
  qed
qed

lemma readIP_fresh:
  assumes "readIP run parseCIDR srv = Inr srv'" and "fresh k srv"
  shows "fresh k srv'"
proof -
  from assms(1) obtain ip where "srv' = srv\<lparr>IP := ip\<rparr>"
    unfolding readIP_def
    by (auto split: prod.splits if_splits option.splits)
  with assms(2) show ?thesis by (simp add: fresh_def)
qed

lemma checkServer_fresh:
  assumes "checkServer run endpoints parseCIDR mvms conns attachments vpcList server
             = Inr (Some srv, notices)"
  shows "fresh (WiringServer.Name server) srv"
proof -
  from assms have nc: "WiringServer.Type server \<noteq> ServerTypeControl"
    unfolding checkServer_def by (auto split: if_splits)
  from assms nc obtain vm where vm: "fmlookup mvms (WiringServer.Name server) = Some vm"
    unfolding checkServer_def by (cases "fmlookup mvms (WiringServer.Name server)") auto
  have f0: "fresh (WiringServer.Name server) (newServer server vm)"
    by (simp add: fresh_def newServer_def)
  from assms nc vm obtain srv0 where
    cs: "connScan endpoints conns (newServer server vm) = Done srv0"
    unfolding checkServer_def
    by (cases "connScan endpoints conns (newServer server vm)") auto
  from connScan_fresh [OF cs f0] have f1: "fresh (WiringServer.Name server) srv0" .
  from assms nc vm cs obtain conn where conn: "Server.Connection srv0 = Some conn"
    unfolding checkServer_def by (cases "Server.Connection srv0") auto
  obtain srv1 logged where
    at: "attachScan (Connection.Name conn) attachments (srv0, []) = (srv1, logged)"
    by (cases "attachScan (Connection.Name conn) attachments (srv0, [])")
  from attachScan_fresh [OF at f1] have f2: "fresh (WiringServer.Name server) srv1" .
  from assms nc vm cs conn at obtain att where att: "Server.VPCAttachment srv1 = Some att"
    unfolding checkServer_def by (cases "Server.VPCAttachment srv1") auto
  from assms nc vm cs conn at att obtain srv2 where v: "vpcScan att vpcList srv1 = Inr srv2"
    unfolding checkServer_def by (cases "vpcScan att vpcList srv1") auto
  from vpcScan_fresh [OF v f2] have f3: "fresh (WiringServer.Name server) srv2" .
  from assms nc vm cs conn at att v have r: "readIP run parseCIDR srv2 = Inr srv"
    unfolding checkServer_def by (cases "readIP run parseCIDR srv2") auto
  from readIP_fresh [OF r f3] show ?thesis .
qed

lemma serverLoopB_fresh:
  "serverLoopB run endpoints parseCIDR mvms conns attachments vpcList ws (servers, logged)
       = Inr (servers', logged')
     \<Longrightarrow> (\<forall>k s. fmlookup servers k = Some s \<longrightarrow> fresh k s)
     \<Longrightarrow> (\<forall>k s. fmlookup servers' k = Some s \<longrightarrow> fresh k s)"
proof (induction ws arbitrary: servers logged)
  case Nil
  then show ?case by simp
next
  case (Cons w ws)
  from Cons.prems(1) obtain found notices where
    c: "checkServer run endpoints parseCIDR mvms conns attachments vpcList w
          = Inr (found, notices)"
    by (cases "checkServer run endpoints parseCIDR mvms conns attachments vpcList w") auto
  let ?m = "case found of None \<Rightarrow> servers | Some srv \<Rightarrow> fmupd (WiringServer.Name w) srv servers"
  from Cons.prems(1) c have r:
    "serverLoopB run endpoints parseCIDR mvms conns attachments vpcList ws (?m, logged @ notices)
       = Inr (servers', logged')"
    by simp
  have "\<forall>k s. fmlookup ?m k = Some s \<longrightarrow> fresh k s"
  proof (cases found)
    case None
    with Cons.prems(2) show ?thesis by simp
  next
    case (Some srv)
    with c have "fresh (WiringServer.Name w) srv" by (simp add: checkServer_fresh)
    with Some Cons.prems(2) show ?thesis by auto
  qed
  from Cons.IH [OF r this] show ?case .
qed

lemma phaseB_fresh:
  assumes "phaseB run endpoints parseCIDR mvms data attachments vpcList = Inr (servers, logged)"
  shows "\<forall>k s. fmlookup servers k = Some s \<longrightarrow> fresh k s"
proof -
  have "\<forall>k s. fmlookup (fmempty :: (string, Server) fmap) k = Some s \<longrightarrow> fresh k s" by simp
  from serverLoopB_fresh [OF assms [unfolded phaseB_def] this] show ?thesis .
qed

section \<open>Phase C: properties\<close>

lemma onlyPeers_refl: "onlyPeers m m"
  unfolding onlyPeers_def
proof
  fix k
  show "rel_option (\<lambda>s s'. \<exists>p. s' = s\<lparr>VPCPeers := p\<rparr>) (fmlookup m k) (fmlookup m k)"
  proof (cases "fmlookup m k")
    case None
    then show ?thesis by simp
  next
    case (Some s)
    have "\<exists>p. s = s\<lparr>VPCPeers := p\<rparr>" by (rule exI [of _ "VPCPeers s"]) simp
    with Some show ?thesis by simp
  qed
qed

lemma onlyPeers_trans:
  assumes "onlyPeers a b" and "onlyPeers b c"
  shows "onlyPeers a c"
  unfolding onlyPeers_def
proof
  fix k
  from assms have ab: "rel_option (\<lambda>s s'. \<exists>p. s' = s\<lparr>VPCPeers := p\<rparr>) (fmlookup a k) (fmlookup b k)"
    and bc: "rel_option (\<lambda>s s'. \<exists>p. s' = s\<lparr>VPCPeers := p\<rparr>) (fmlookup b k) (fmlookup c k)"
    unfolding onlyPeers_def by simp_all
  show "rel_option (\<lambda>s s'. \<exists>p. s' = s\<lparr>VPCPeers := p\<rparr>) (fmlookup a k) (fmlookup c k)"
  proof (cases "fmlookup a k")
    case None
    with ab bc show ?thesis by (cases "fmlookup b k"; cases "fmlookup c k") simp_all
  next
    case (Some s)
    with ab obtain s1 p where s1: "fmlookup b k = Some s1" "s1 = s\<lparr>VPCPeers := p\<rparr>"
      by (cases "fmlookup b k") auto
    with bc obtain s2 q where s2: "fmlookup c k = Some s2" "s2 = s1\<lparr>VPCPeers := q\<rparr>"
      by (cases "fmlookup c k") auto
    from s1 s2 have "s2 = s\<lparr>VPCPeers := q\<rparr>" by simp
    with Some s2(1) show ?thesis by auto
  qed
qed

lemma onlyPeers_dom: "onlyPeers m m' \<Longrightarrow> fmdom' m' = fmdom' m"
proof -
  assume h: "onlyPeers m m'"
  have "(fmlookup m' k = None) = (fmlookup m k = None)" for k
    using h [unfolded onlyPeers_def, rule_format, of k]
    by (cases "fmlookup m k"; cases "fmlookup m' k") simp_all
  then show ?thesis by (auto simp: fmlookup_dom'_iff) (metis option.exhaust)+
qed

lemma onlyPeers_update:
  assumes "fmlookup m a = Some s"
  shows "onlyPeers m (fmupd a (s\<lparr>VPCPeers := p\<rparr>) m)"
  unfolding onlyPeers_def
proof
  fix k
  show "rel_option (\<lambda>s s'. \<exists>p. s' = s\<lparr>VPCPeers := p\<rparr>) (fmlookup m k)
      (fmlookup (fmupd a (s\<lparr>VPCPeers := p\<rparr>) m) k)"
  proof (cases "k = a")
    case True
    with assms show ?thesis by auto
  next
    case False
    have "rel_option (\<lambda>s s'. \<exists>p. s' = s\<lparr>VPCPeers := p\<rparr>) (fmlookup m k) (fmlookup m k)"
      using onlyPeers_refl [of m] unfolding onlyPeers_def by simp
    with False show ?thesis by simp
  qed
qed

lemma addPeer_Inr:
  assumes "addPeer a b servers = Inr s1"
  shows "\<exists>sa. fmlookup servers a = Some sa
          \<and> s1 = (if b \<in> set (VPCPeers sa) then servers
                  else fmupd a (sa\<lparr>VPCPeers := VPCPeers sa @ [b]\<rparr>) servers)"
  using assms unfolding addPeer_def by (cases "fmlookup servers a") (auto split: if_splits)

lemma addPeer_props:
  assumes "addPeer a b servers = Inr s1"
  shows "a \<in> fmdom' servers" and "onlyPeers servers s1"
    and "peersOf s1 x = (if x = a then insert b (peersOf servers x) else peersOf servers x)"
    and "peersDistinct servers \<Longrightarrow> peersDistinct s1"
proof -
  from addPeer_Inr [OF assms] obtain sa where
    sa: "fmlookup servers a = Some sa"
    and s1: "s1 = (if b \<in> set (VPCPeers sa) then servers
                  else fmupd a (sa\<lparr>VPCPeers := VPCPeers sa @ [b]\<rparr>) servers)"
    by blast
  show "a \<in> fmdom' servers" using sa by (simp add: fmdom'I)
  show "onlyPeers servers s1"
    using s1 onlyPeers_refl [of servers] onlyPeers_update [OF sa] by simp
  show "peersOf s1 x = (if x = a then insert b (peersOf servers x) else peersOf servers x)"
    using sa s1 by (auto simp: peersOf_def)
  show "peersDistinct s1" if "peersDistinct servers"
    using that sa s1 unfolding peersDistinct_def by (auto split: if_splits)
qed

lemma pair_step:
  assumes a: "addPeer a b s = Inr s1" and b: "addPeer b a s1 = Inr s2"
    and d: "peersDistinct s" and y: "peersSymmetric s"
  shows "peersDistinct s2 \<and> peersSymmetric s2 \<and> onlyPeers s s2"
proof -
  have o: "onlyPeers s s2"
    using onlyPeers_trans [OF addPeer_props(2) [OF a] addPeer_props(2) [OF b]] .
  have dom1: "fmdom' s1 = fmdom' s" using onlyPeers_dom [OF addPeer_props(2) [OF a]] .
  have dom2: "fmdom' s2 = fmdom' s" using onlyPeers_dom [OF o] .
  have p: "peersOf s2 x = (if x = b then insert a (if x = a then insert b (peersOf s x) else peersOf s x)
      else (if x = a then insert b (peersOf s x) else peersOf s x))" for x
    by (simp only: addPeer_props(3) [OF b] addPeer_props(3) [OF a])
  have dd: "peersDistinct s2"
    using addPeer_props(4) [OF b addPeer_props(4) [OF a d]] .
  have ss: "peersSymmetric s2"
    unfolding peersSymmetric_def dom2
  proof (intro ballI)
    fix x z assume "x \<in> fmdom' s" "z \<in> fmdom' s"
    with y have "z \<in> peersOf s x \<longleftrightarrow> x \<in> peersOf s z"
      unfolding peersSymmetric_def by blast
    then show "z \<in> peersOf s2 x \<longleftrightarrow> x \<in> peersOf s2 z"
      unfolding p by auto
  qed
  from dd ss o show ?thesis by simp
qed

lemma innerPeerLoop_inv:
  "innerPeerLoop a bs s = Inr s' \<Longrightarrow> peersDistinct s \<Longrightarrow> peersSymmetric s
     \<Longrightarrow> peersDistinct s' \<and> peersSymmetric s' \<and> onlyPeers s s'"
proof (induction bs arbitrary: s)
  case Nil
  then show ?case by (simp add: onlyPeers_refl)
next
  case (Cons b bs)
  from Cons.prems(1) obtain s1 s2 where
    x: "addPeer a b s = Inr s1" and y: "addPeer b a s1 = Inr s2"
    and r: "innerPeerLoop a bs s2 = Inr s'"
    by (auto split: sum.splits)
  from pair_step [OF x y Cons.prems(2,3)] have i: "peersDistinct s2" "peersSymmetric s2"
    "onlyPeers s s2" by simp_all
  from Cons.IH [OF r i(1,2)] i(3) show ?case by (auto intro: onlyPeers_trans)
qed

lemma outerPeerLoop_inv:
  "outerPeerLoop as bs s = Inr s' \<Longrightarrow> peersDistinct s \<Longrightarrow> peersSymmetric s
     \<Longrightarrow> peersDistinct s' \<and> peersSymmetric s' \<and> onlyPeers s s'"
proof (induction as arbitrary: s)
  case Nil
  then show ?case by (simp add: onlyPeers_refl)
next
  case (Cons a as)
  from Cons.prems(1) obtain s1 where
    x: "innerPeerLoop a bs s = Inr s1" and r: "outerPeerLoop as bs s1 = Inr s'"
    by (auto split: sum.splits)
  from innerPeerLoop_inv [OF x Cons.prems(2,3)] have i: "peersDistinct s1" "peersSymmetric s1"
    "onlyPeers s s1" by simp_all
  from Cons.IH [OF r i(1,2)] i(3) show ?case by (auto intro: onlyPeers_trans)
qed

lemma peeringLoop_inv:
  "peeringLoop order ps s = Inr s' \<Longrightarrow> peersDistinct s \<Longrightarrow> peersSymmetric s
     \<Longrightarrow> peersDistinct s' \<and> peersSymmetric s' \<and> onlyPeers s s'"
proof (induction ps arbitrary: s)
  case Nil
  then show ?case by (simp add: onlyPeers_refl)
next
  case (Cons p ps)
  from Cons.prems(1) obtain vpc1 vpc2 where v: "VPCs p = Some (vpc1, vpc2)"
    by (cases "VPCs p") auto
  from Cons.prems(1) v obtain xs ys where
    m: "vpcMembers vpc1 vpc2 (rangeServers order s) = Inr (xs, ys)"
    by (cases "vpcMembers vpc1 vpc2 (rangeServers order s)") auto
  from Cons.prems(1) v m obtain s1 where
    x: "outerPeerLoop xs ys s = Inr s1" and r: "peeringLoop order ps s1 = Inr s'"
    by (auto split: sum.splits if_splits)
  from outerPeerLoop_inv [OF x Cons.prems(2,3)] have i: "peersDistinct s1" "peersSymmetric s1"
    "onlyPeers s s1" by simp_all
  from Cons.IH [OF r i(1,2)] i(3) show ?case by (auto intro: onlyPeers_trans)
qed

lemma subnetLoop_Inr:
  "subnetLoop p subs srv = Inr srv' \<Longrightarrow>
     (srv' = srv \<and> (Subnet srv \<in> set subs \<longrightarrow> PermitExternalName p \<in> set (Externals srv)))
     \<or> (Subnet srv \<in> set subs \<and> PermitExternalName p \<notin> set (Externals srv)
         \<and> ExternalPeering srv = None
         \<and> srv' = srv\<lparr>ExternalPeering := Some p,
                       Externals := Externals srv @ [PermitExternalName p]\<rparr>)"
proof (induction subs arbitrary: srv)
  case Nil
  then show ?case by simp
next
  case (Cons sub subs)
  show ?case
  proof (cases "Subnet srv \<noteq> sub")
    case True
    with Cons.prems have "subnetLoop p subs srv = Inr srv'" by simp
    from Cons.IH [OF this] True show ?thesis by auto
  next
    case eq: False
    show ?thesis
    proof (cases "PermitExternalName p \<in> set (Externals srv)")
      case True
      with eq Cons.prems have "subnetLoop p subs srv = Inr srv'" by simp
      from Cons.IH [OF this] True show ?thesis by auto
    next
      case False
      with eq Cons.prems have none: "ExternalPeering srv = None"
        by (auto split: if_splits)
      let ?s = "srv\<lparr>ExternalPeering := Some p,
                     Externals := Externals srv @ [PermitExternalName p]\<rparr>"
      from eq False none Cons.prems have "subnetLoop p subs ?s = Inr srv'" by simp
      from Cons.IH [OF this] have "srv' = ?s" by auto
      with eq False none show ?thesis by simp
    qed
  qed
qed

lemma subnetLoop_conflict:
  assumes "Subnet srv \<in> set subs" and "PermitExternalName p \<notin> set (Externals srv)"
    and "ExternalPeering srv \<noteq> None"
  shows "subnetLoop p subs srv = Inl (MultipleExternalPeerings (Server.Name srv))"
  using assms(1)
proof (induction subs)
  case Nil
  then show ?case by simp
next
  case (Cons sub subs)
  then show ?case using assms(2,3) by (cases "Subnet srv = sub") auto
qed

lemma rel_option_none_iff: "rel_option R x y \<Longrightarrow> (y = None) = (x = None)"
  by (cases x; cases y) simp_all

lemma rel_option_SomeD: "rel_option R (Some a) y \<Longrightarrow> \<exists>b. y = Some b \<and> R a b"
  by (cases y) simp_all

lemma rel_option_SomeI: "R a b \<Longrightarrow> rel_option R (Some a) (Some b)"
  by simp

lemma extCore_fields:
  assumes "extCore s' = extCore s"
  shows "Server.Name s' = Server.Name s" "Server.VPC s' = Server.VPC s"
    "Subnet s' = Subnet s" "VPCPeers s' = VPCPeers s" "IP s' = IP s"
proof -
  have "Server.Name (extCore s') = Server.Name (extCore s)"
    "Server.VPC (extCore s') = Server.VPC (extCore s)"
    "Subnet (extCore s') = Subnet (extCore s)" "VPCPeers (extCore s') = VPCPeers (extCore s)"
    "IP (extCore s') = IP (extCore s)"
    using assms by (rule arg_cong)+
  then show "Server.Name s' = Server.Name s" "Server.VPC s' = Server.VPC s"
    "Subnet s' = Subnet s" "VPCPeers s' = VPCPeers s" "IP s' = IP s"
    by (simp_all add: extCore_def)
qed

lemma extCore_update: "extCore (s\<lparr>ExternalPeering := ep, Externals := ex\<rparr>) = extCore s"
  by (simp add: extCore_def)

lemma externalsGrowD:
  assumes "externalsGrow m m'" and "fmlookup m k = Some s"
  shows "\<exists>s'. fmlookup m' k = Some s' \<and> extCore s' = extCore s
           \<and> set (Externals s) \<subseteq> set (Externals s')"
proof -
  from assms(1) have "rel_option
          (\<lambda>s s'. extCore s' = extCore s \<and> set (Externals s) \<subseteq> set (Externals s'))
          (fmlookup m k) (fmlookup m' k)"
    unfolding externalsGrow_def by (rule spec)
  then have "rel_option
          (\<lambda>s s'. extCore s' = extCore s \<and> set (Externals s) \<subseteq> set (Externals s'))
          (Some s) (fmlookup m' k)"
    unfolding assms(2) .
  from rel_option_SomeD [OF this] show ?thesis .
qed

lemma externalsGrow_None:
  assumes "externalsGrow m m'"
  shows "(fmlookup m' k = None) = (fmlookup m k = None)"
proof -
  from assms have "rel_option
          (\<lambda>s s'. extCore s' = extCore s \<and> set (Externals s) \<subseteq> set (Externals s'))
          (fmlookup m k) (fmlookup m' k)"
    unfolding externalsGrow_def by (rule spec)
  then show ?thesis by (rule rel_option_none_iff)
qed

lemma externalsGrowI:
  assumes "\<And>k. fmlookup m k = None \<Longrightarrow> fmlookup m' k = None"
    and "\<And>k s. fmlookup m k = Some s \<Longrightarrow>
      \<exists>s'. fmlookup m' k = Some s' \<and> extCore s' = extCore s
          \<and> set (Externals s) \<subseteq> set (Externals s')"
  shows "externalsGrow m m'"
  unfolding externalsGrow_def
proof
  fix k
  show "rel_option
          (\<lambda>s s'. extCore s' = extCore s \<and> set (Externals s) \<subseteq> set (Externals s'))
          (fmlookup m k) (fmlookup m' k)"
  proof (cases "fmlookup m k")
    case None
    from assms(1) [OF None] None show ?thesis by (simp only: option.rel_inject)
  next
    case (Some s)
    from assms(2) [OF Some] obtain s' where
      s': "fmlookup m' k = Some s'"
        "extCore s' = extCore s \<and> set (Externals s) \<subseteq> set (Externals s')"
      by blast
    show ?thesis unfolding Some s'(1) using s'(2) by (rule rel_option_SomeI)
  qed
qed

lemma externalsGrow_refl: "externalsGrow m m"
  by (rule externalsGrowI) simp_all

lemma externalsGrow_trans:
  assumes ab: "externalsGrow a b" and bc: "externalsGrow b c"
  shows "externalsGrow a c"
proof (rule externalsGrowI)
  fix k assume "fmlookup a k = None"
  then show "fmlookup c k = None"
    using externalsGrow_None [OF ab, of k] externalsGrow_None [OF bc, of k] by simp
next
  fix k s assume h: "fmlookup a k = Some s"
  from externalsGrowD [OF ab h] obtain s1 where
    s1: "fmlookup b k = Some s1" "extCore s1 = extCore s"
      "set (Externals s) \<subseteq> set (Externals s1)" by blast
  from externalsGrowD [OF bc s1(1)] obtain s2 where
    s2: "fmlookup c k = Some s2" "extCore s2 = extCore s1"
      "set (Externals s1) \<subseteq> set (Externals s2)" by blast
  from s1 s2 show "\<exists>s'. fmlookup c k = Some s' \<and> extCore s' = extCore s
      \<and> set (Externals s) \<subseteq> set (Externals s')"
    by auto
qed

lemma externalsGrow_update:
  assumes "fmlookup m k = Some s" and "extCore s' = extCore s"
    and "set (Externals s) \<subseteq> set (Externals s')"
  shows "externalsGrow m (fmupd k s' m)"
proof (rule externalsGrowI)
  fix x assume "fmlookup m x = None"
  with assms(1) show "fmlookup (fmupd k s' m) x = None" by auto
next
  fix x t assume h: "fmlookup m x = Some t"
  with assms show "\<exists>u. fmlookup (fmupd k s' m) x = Some u \<and> extCore u = extCore t
      \<and> set (Externals t) \<subseteq> set (Externals u)"
    by (cases "x = k") auto
qed

lemma permits_core: "extCore s' = extCore s \<Longrightarrow> permits p s' = permits p s"
  using extCore_fields(2,3) [of s' s] by (simp add: permits_def split: option.splits)

text \<open>One server of the range: what the body of the loop does to the map.\<close>

lemma subnetLoop_core:
  assumes "subnetLoop p subs srv = Inr srv'"
  shows "extCore srv' = extCore srv" and "set (Externals srv) \<subseteq> set (Externals srv')"
    and "Subnet srv \<in> set subs \<Longrightarrow> PermitExternalName p \<in> set (Externals srv')"
    and "Externals srv = [] \<or> (\<exists>n. Externals srv = [n] \<and> ExternalPeering srv \<noteq> None)
      \<Longrightarrow> Externals srv' = [] \<or> (\<exists>n. Externals srv' = [n] \<and> ExternalPeering srv' \<noteq> None)"
proof -
  from subnetLoop_Inr [OF assms] have
    alt: "(srv' = srv \<and> (Subnet srv \<in> set subs \<longrightarrow> PermitExternalName p \<in> set (Externals srv)))
     \<or> (Subnet srv \<in> set subs \<and> PermitExternalName p \<notin> set (Externals srv)
         \<and> ExternalPeering srv = None
         \<and> srv' = srv\<lparr>ExternalPeering := Some p,
                       Externals := Externals srv @ [PermitExternalName p]\<rparr>)" .
  then show "extCore srv' = extCore srv"
  proof
    assume "srv' = srv \<and> (Subnet srv \<in> set subs \<longrightarrow> PermitExternalName p \<in> set (Externals srv))"
    then show ?thesis by simp
  next
    assume "Subnet srv \<in> set subs \<and> PermitExternalName p \<notin> set (Externals srv)
         \<and> ExternalPeering srv = None
         \<and> srv' = srv\<lparr>ExternalPeering := Some p,
                       Externals := Externals srv @ [PermitExternalName p]\<rparr>"
    then have "srv' = srv\<lparr>ExternalPeering := Some p,
                       Externals := Externals srv @ [PermitExternalName p]\<rparr>" by (elim conjE)
    then show ?thesis by (simp only: extCore_update)
  qed
  from alt show "set (Externals srv) \<subseteq> set (Externals srv')"
  proof
    assume "srv' = srv \<and> (Subnet srv \<in> set subs \<longrightarrow> PermitExternalName p \<in> set (Externals srv))"
    then show ?thesis by simp
  next
    assume "Subnet srv \<in> set subs \<and> PermitExternalName p \<notin> set (Externals srv)
         \<and> ExternalPeering srv = None
         \<and> srv' = srv\<lparr>ExternalPeering := Some p,
                       Externals := Externals srv @ [PermitExternalName p]\<rparr>"
    then have "Externals srv' = Externals srv @ [PermitExternalName p]" by simp
    then show ?thesis by auto
  qed
  show "PermitExternalName p \<in> set (Externals srv')" if "Subnet srv \<in> set subs"
    using alt
  proof
    assume "srv' = srv \<and> (Subnet srv \<in> set subs \<longrightarrow> PermitExternalName p \<in> set (Externals srv))"
    with that show ?thesis by simp
  next
    assume "Subnet srv \<in> set subs \<and> PermitExternalName p \<notin> set (Externals srv)
         \<and> ExternalPeering srv = None
         \<and> srv' = srv\<lparr>ExternalPeering := Some p,
                       Externals := Externals srv @ [PermitExternalName p]\<rparr>"
    then have "Externals srv' = Externals srv @ [PermitExternalName p]" by simp
    then show ?thesis by simp
  qed
  show "Externals srv' = [] \<or> (\<exists>n. Externals srv' = [n] \<and> ExternalPeering srv' \<noteq> None)"
    if js: "Externals srv = [] \<or> (\<exists>n. Externals srv = [n] \<and> ExternalPeering srv \<noteq> None)"
    using alt
  proof
    assume "srv' = srv \<and> (Subnet srv \<in> set subs \<longrightarrow> PermitExternalName p \<in> set (Externals srv))"
    with js show ?thesis by simp
  next
    assume a: "Subnet srv \<in> set subs \<and> PermitExternalName p \<notin> set (Externals srv)
         \<and> ExternalPeering srv = None
         \<and> srv' = srv\<lparr>ExternalPeering := Some p,
                       Externals := Externals srv @ [PermitExternalName p]\<rparr>"
    with js have e: "Externals srv = []" by auto
    from a have "Externals srv' = Externals srv @ [PermitExternalName p]"
      "ExternalPeering srv' = Some p" by simp_all
    with e show ?thesis by simp
  qed
qed

lemma externalsOK_update:
  assumes "externalsOK servers"
    and "Externals s' = [] \<or> (\<exists>n. Externals s' = [n] \<and> ExternalPeering s' \<noteq> None)"
  shows "externalsOK (fmupd key s' servers)"
  unfolding externalsOK_def
proof (intro allI impI)
  fix k s assume l: "fmlookup (fmupd key s' servers) k = Some s"
  show "Externals s = [] \<or> (\<exists>n. Externals s = [n] \<and> ExternalPeering s \<noteq> None)"
  proof (cases "k = key")
    case True
    with l have "s = s'" by simp
    with assms(2) show ?thesis by simp
  next
    case False
    with l have "fmlookup servers k = Some s" by simp
    with assms(1) show ?thesis unfolding externalsOK_def by blast
  qed
qed

lemma externalsOK_D:
  "externalsOK servers \<Longrightarrow> fmlookup servers k = Some s
     \<Longrightarrow> Externals s = [] \<or> (\<exists>n. Externals s = [n] \<and> ExternalPeering s \<noteq> None)"
  unfolding externalsOK_def by blast

lemma externalServerLoop_step:
  assumes "externalServerLoop p (key # rest) servers = Inr s'"
  shows "\<exists>s1. externalServerLoop p rest s1 = Inr s' \<and> externalsGrow servers s1
           \<and> (externalsOK servers \<longrightarrow> externalsOK s1)
           \<and> (\<forall>srv. fmlookup servers key = Some srv \<and> permits p srv \<longrightarrow>
                 (\<exists>srv1. fmlookup s1 key = Some srv1 \<and> PermitExternalName p \<in> set (Externals srv1)))"
proof (cases "fmlookup servers key")
  case None
  with assms have "externalServerLoop p rest servers = Inr s'" by simp
  with None externalsGrow_refl [of servers] show ?thesis by auto
next
  case (Some server)
  with assms obtain v where v: "Server.VPC server = Some v"
    by (cases "Server.VPC server") auto
  show ?thesis
  proof (cases "VPC.Name v \<noteq> PermitVPCName p")
    case True
    with assms Some v have "externalServerLoop p rest servers = Inr s'" by simp
    moreover from True v Some have "\<not> permits p server" by (simp add: permits_def)
    ultimately show ?thesis using Some externalsGrow_refl [of servers] by auto
  next
    case False
    with assms Some v obtain server' where
      sl: "subnetLoop p (PermitVPCSubnets p) server = Inr server'" and
      r: "externalServerLoop p rest (fmupd key server' servers) = Inr s'"
      by (cases "subnetLoop p (PermitVPCSubnets p) server") auto
    note c = subnetLoop_core [OF sl]
    have g: "externalsGrow servers (fmupd key server' servers)"
      using externalsGrow_update [OF Some c(1,2)] .
    have ok: "externalsOK (fmupd key server' servers)" if j: "externalsOK servers"
      using externalsOK_update [OF j c(4) [OF externalsOK_D [OF j Some]]] .
    have vis: "\<exists>srv1. fmlookup (fmupd key server' servers) key = Some srv1
        \<and> PermitExternalName p \<in> set (Externals srv1)"
      if "permits p server"
    proof -
      from that v have "Subnet server \<in> set (PermitVPCSubnets p)" by (simp add: permits_def)
      from c(3) [OF this] show ?thesis by simp
    qed
    show ?thesis
    proof (intro exI [of _ "fmupd key server' servers"] conjI)
      show "externalServerLoop p rest (fmupd key server' servers) = Inr s'" by (rule r)
      show "externalsGrow servers (fmupd key server' servers)" by (rule g)
      show "externalsOK servers \<longrightarrow> externalsOK (fmupd key server' servers)" using ok by blast
      show "\<forall>srv. fmlookup servers key = Some srv \<and> permits p srv \<longrightarrow>
           (\<exists>srv1. fmlookup (fmupd key server' servers) key = Some srv1
              \<and> PermitExternalName p \<in> set (Externals srv1))"
      proof (intro allI impI)
        fix srv assume "fmlookup servers key = Some srv \<and> permits p srv"
        with Some have "permits p server" by simp
        then show "\<exists>srv1. fmlookup (fmupd key server' servers) key = Some srv1
              \<and> PermitExternalName p \<in> set (Externals srv1)" by (rule vis)
      qed
    qed
  qed
qed

lemma externalServerLoop_Inr:
  "externalServerLoop p ks servers = Inr s' \<Longrightarrow>
     externalsGrow servers s' \<and> (externalsOK servers \<longrightarrow> externalsOK s')
     \<and> (\<forall>k \<in> set ks. \<forall>srv. fmlookup servers k = Some srv \<and> permits p srv \<longrightarrow>
           (\<exists>srv'. fmlookup s' k = Some srv' \<and> PermitExternalName p \<in> set (Externals srv')))"
proof (induction ks arbitrary: servers)
  case Nil
  then show ?case by (simp add: externalsGrow_refl)
next
  case (Cons key rest)
  from externalServerLoop_step [OF Cons.prems] obtain s1 where
    r: "externalServerLoop p rest s1 = Inr s'" and g: "externalsGrow servers s1"
    and ok: "externalsOK servers \<longrightarrow> externalsOK s1"
    and vis: "\<forall>srv. fmlookup servers key = Some srv \<and> permits p srv \<longrightarrow>
                 (\<exists>srv1. fmlookup s1 key = Some srv1 \<and> PermitExternalName p \<in> set (Externals srv1))"
    by blast
  from Cons.IH [OF r] have
    g': "externalsGrow s1 s'" and ok': "externalsOK s1 \<longrightarrow> externalsOK s'"
    and vis': "\<forall>k \<in> set rest. \<forall>srv. fmlookup s1 k = Some srv \<and> permits p srv \<longrightarrow>
           (\<exists>srv'. fmlookup s' k = Some srv' \<and> PermitExternalName p \<in> set (Externals srv'))"
    by simp_all
  have "\<exists>srv'. fmlookup s' k = Some srv' \<and> PermitExternalName p \<in> set (Externals srv')"
    if k: "k \<in> set (key # rest)" and l: "fmlookup servers k = Some srv" and pm: "permits p srv"
    for k srv
  proof (cases "k = key")
    case True
    with vis l pm obtain srv1 where
      s1: "fmlookup s1 key = Some srv1" "PermitExternalName p \<in> set (Externals srv1)" by blast
    from externalsGrowD [OF g' s1(1)] obtain srv' where
      "fmlookup s' key = Some srv'" "set (Externals srv1) \<subseteq> set (Externals srv')" by blast
    with s1(2) True show ?thesis by auto
  next
    case False
    with k have kr: "k \<in> set rest" by simp
    from externalsGrowD [OF g l] obtain srv1 where
      s1: "fmlookup s1 k = Some srv1" "extCore srv1 = extCore srv" by blast
    from permits_core [OF s1(2)] pm have "permits p srv1" by simp
    with vis' kr s1(1) show ?thesis by blast
  qed
  with externalsGrow_trans [OF g g'] ok ok' show ?case by blast
qed

lemma externalServerLoop_conflict:
  assumes ok: "externalsOK servers" and l: "fmlookup servers k = Some srv"
    and pm: "permits p srv" and n: "n \<in> set (Externals srv)" and ne: "n \<noteq> PermitExternalName p"
    and k: "k \<in> set ks"
  shows "\<exists>e. externalServerLoop p ks servers = Inl e"
proof (cases "externalServerLoop p ks servers")
  case (Inl e)
  then show ?thesis by simp
next
  case (Inr s')
  from externalServerLoop_Inr [OF Inr] ok k l pm obtain srv' where
    g: "externalsGrow servers s'" and ok': "externalsOK s'"
    and v: "fmlookup s' k = Some srv'" "PermitExternalName p \<in> set (Externals srv')"
    by blast
  from externalsGrowD [OF g l] v(1) have "set (Externals srv) \<subseteq> set (Externals srv')" by auto
  with n have n': "n \<in> set (Externals srv')" by blast
  from externalsOK_D [OF ok' v(1)] n' v(2) have "n = PermitExternalName p" by auto
  with ne show ?thesis by simp
qed

lemma externalLoop_step:
  assumes "externalLoop order (p # rest) servers = Inr s'"
  shows "\<exists>s1. externalServerLoop p (order servers) servers = Inr s1
           \<and> externalLoop order rest s1 = Inr s'"
  using assms by (auto split: if_splits sum.splits)

lemma externalLoop_Inr:
  "externalLoop order ps servers = Inr s' \<Longrightarrow>
     externalsGrow servers s' \<and> (externalsOK servers \<longrightarrow> externalsOK s')"
proof (induction ps arbitrary: servers)
  case Nil
  then show ?case by (simp add: externalsGrow_refl)
next
  case (Cons p rest)
  from externalLoop_step [OF Cons.prems] obtain s1 where
    a: "externalServerLoop p (order servers) servers = Inr s1"
    and r: "externalLoop order rest s1 = Inr s'" by blast
  from externalServerLoop_Inr [OF a] Cons.IH [OF r] show ?case
    using externalsGrow_trans by blast
qed

lemma externalLoop_pending:
  assumes cover: "\<forall>m. fmdom' m \<subseteq> set (order m)"
  shows "externalsOK servers \<Longrightarrow> fmlookup servers k = Some srv \<Longrightarrow> n \<in> set (Externals srv)
    \<Longrightarrow> q \<in> set ps \<Longrightarrow> permits q srv \<Longrightarrow> n \<noteq> PermitExternalName q
    \<Longrightarrow> \<exists>e. externalLoop order ps servers = Inl e"
proof (induction ps arbitrary: servers srv)
  case Nil
  then show ?case by simp
next
  case (Cons p rest)
  show ?case
  proof (cases "externalLoop order (p # rest) servers")
    case (Inl e)
    then show ?thesis by simp
  next
    case (Inr s')
    from externalLoop_step [OF Inr] obtain s1 where
      a: "externalServerLoop p (order servers) servers = Inr s1"
      and r: "externalLoop order rest s1 = Inr s'" by blast
    have kin: "k \<in> set (order servers)"
      using cover Cons.prems(2) by (meson fmdom'I subsetD)
    have "p \<noteq> q"
    proof
      assume "p = q"
      with externalServerLoop_conflict [OF Cons.prems(1,2) _ Cons.prems(3) _ kin, of q]
        Cons.prems(5,6) a
      show False by auto
    qed
    with Cons.prems(4) have qr: "q \<in> set rest" by simp
    from externalServerLoop_Inr [OF a] Cons.prems(1) have
      g: "externalsGrow servers s1" and ok1: "externalsOK s1" by simp_all
    from externalsGrowD [OF g Cons.prems(2)] obtain srv1 where
      s1: "fmlookup s1 k = Some srv1" "extCore srv1 = extCore srv"
        "set (Externals srv) \<subseteq> set (Externals srv1)" by blast
    from s1(3) Cons.prems(3) have n1: "n \<in> set (Externals srv1)" by blast
    from permits_core [OF s1(2)] Cons.prems(5) have pm1: "permits q srv1" by simp
    from Cons.IH [OF ok1 s1(1) n1 qr pm1 Cons.prems(6)] r show ?thesis by simp
  qed
qed

lemma externalLoop_two_externals:
  assumes cover: "\<forall>m. fmdom' m \<subseteq> set (order m)"
  shows "externalsOK servers \<Longrightarrow> fmlookup servers k = Some srv \<Longrightarrow> i < j \<Longrightarrow> j < length ps
    \<Longrightarrow> permits (ps ! i) srv \<Longrightarrow> permits (ps ! j) srv
    \<Longrightarrow> PermitExternalName (ps ! i) \<noteq> PermitExternalName (ps ! j)
    \<Longrightarrow> \<exists>e. externalLoop order ps servers = Inl e"
proof (induction ps arbitrary: servers srv i j)
  case Nil
  then show ?case by simp
next
  case (Cons p rest)
  show ?case
  proof (cases "externalLoop order (p # rest) servers")
    case (Inl e)
    then show ?thesis by simp
  next
    case (Inr s')
    from externalLoop_step [OF Inr] obtain s1 where
      a: "externalServerLoop p (order servers) servers = Inr s1"
      and r: "externalLoop order rest s1 = Inr s'" by blast
    have kin: "k \<in> set (order servers)"
      using cover Cons.prems(2) by (meson fmdom'I subsetD)
    from externalServerLoop_Inr [OF a] Cons.prems(1) have
      g: "externalsGrow servers s1" and ok1: "externalsOK s1"
      and vis: "\<forall>k \<in> set (order servers). \<forall>srv. fmlookup servers k = Some srv \<and> permits p srv \<longrightarrow>
           (\<exists>srv'. fmlookup s1 k = Some srv' \<and> PermitExternalName p \<in> set (Externals srv'))"
      by simp_all
    from externalsGrowD [OF g Cons.prems(2)] obtain srv1 where
      s1: "fmlookup s1 k = Some srv1" "extCore srv1 = extCore srv" by blast
    have pc: "permits x srv1 = permits x srv" for x
      using permits_core [OF s1(2)] .
    from Cons.prems(3) obtain j' where j': "j = Suc j'" by (cases j) simp_all
    with Cons.prems(4) have jl: "j' < length rest" by simp
    show ?thesis
    proof (cases i)
      case 0
      with Cons.prems(5) have "permits p srv" by simp
      with vis kin Cons.prems(2) s1(1) have n1: "PermitExternalName p \<in> set (Externals srv1)"
        by fastforce
      from jl have qr: "rest ! j' \<in> set rest" by simp
      from Cons.prems(6) j' have pq: "permits (rest ! j') srv1" by (simp add: pc)
      from Cons.prems(7) 0 j' have ne: "PermitExternalName p \<noteq> PermitExternalName (rest ! j')"
        by simp
      from externalLoop_pending [OF cover ok1 s1(1) n1 qr pq ne] r show ?thesis by simp
    next
      case (Suc i')
      with Cons.prems(3) j' have lt: "i' < j'" by simp
      from Cons.prems(5,6,7) Suc j' have
        "permits (rest ! i') srv1" "permits (rest ! j') srv1"
        "PermitExternalName (rest ! i') \<noteq> PermitExternalName (rest ! j')"
        by (simp_all add: pc)
      from Cons.IH [OF ok1 s1(1) lt jl this] r show ?thesis by simp
    qed
  qed
qed

section \<open>The expected peers\<close>

lemma onlyPeersD:
  assumes "onlyPeers m m'" and "fmlookup m' k = Some s'"
  shows "\<exists>s p. fmlookup m k = Some s \<and> s' = s\<lparr>VPCPeers := p\<rparr>"
proof -
  from assms(1) have r: "rel_option (\<lambda>s s'. \<exists>p. s' = s\<lparr>VPCPeers := p\<rparr>)
      (fmlookup m k) (fmlookup m' k)"
    unfolding onlyPeers_def by (rule spec)
  show ?thesis
  proof (cases "fmlookup m k")
    case None
    with r assms(2) show ?thesis by simp
  next
    case (Some s)
    with r assms(2) have "\<exists>p. s' = s\<lparr>VPCPeers := p\<rparr>" by simp
    with Some show ?thesis by simp
  qed
qed

lemma externalsGrow_rev:
  assumes "externalsGrow m m'" and "fmlookup m' k = Some s'"
  shows "\<exists>s. fmlookup m k = Some s \<and> Server.Name s' = Server.Name s
           \<and> VPCPeers s' = VPCPeers s"
proof -
  from externalsGrow_None [OF assms(1), of k] assms(2) obtain s where
    s: "fmlookup m k = Some s" by (cases "fmlookup m k") simp_all
  from externalsGrowD [OF assms(1) s] assms(2) have "extCore s' = extCore s" by auto
  from extCore_fields(1,4) [OF this] s show ?thesis by simp
qed

text \<open>
  The two properties of the expected peers, on the servers themselves: a server is
  named as its key, no name is twice among its peers, and of two servers of the map each
  is among the peers of the other or neither is.
\<close>

lemma peers_explicit:
  assumes names: "\<forall>k s. fmlookup m k = Some s \<longrightarrow> Server.Name s = k"
    and d: "peersDistinct m" and y: "peersSymmetric m"
  shows "(\<forall>a sa. fmlookup m a = Some sa \<longrightarrow> Server.Name sa = a \<and> distinct (VPCPeers sa))
     \<and> (\<forall>a sa b sb. fmlookup m a = Some sa \<and> fmlookup m b = Some sb
          \<longrightarrow> (Server.Name sb \<in> set (VPCPeers sa) \<longleftrightarrow> Server.Name sa \<in> set (VPCPeers sb)))"
proof -
  have A: "\<forall>a sa. fmlookup m a = Some sa \<longrightarrow> Server.Name sa = a \<and> distinct (VPCPeers sa)"
  proof (intro allI impI)
    fix a sa
    assume "fmlookup m a = Some sa"
    with names d show "Server.Name sa = a \<and> distinct (VPCPeers sa)"
      unfolding peersDistinct_def by blast
  qed
  have B: "\<forall>a sa b sb. fmlookup m a = Some sa \<and> fmlookup m b = Some sb
          \<longrightarrow> (Server.Name sb \<in> set (VPCPeers sa) \<longleftrightarrow> Server.Name sa \<in> set (VPCPeers sb))"
  proof (intro allI impI)
    fix a sa b sb
    assume h: "fmlookup m a = Some sa \<and> fmlookup m b = Some sb"
    then have la: "fmlookup m a = Some sa" and lb: "fmlookup m b = Some sb" by simp_all
    from la lb have "a \<in> fmdom' m" "b \<in> fmdom' m" by (simp_all add: fmdom'I)
    with y have "b \<in> peersOf m a \<longleftrightarrow> a \<in> peersOf m b"
      unfolding peersSymmetric_def by blast
    moreover from names la lb have "Server.Name sa = a" "Server.Name sb = b" by simp_all
    ultimately show "Server.Name sb \<in> set (VPCPeers sa) \<longleftrightarrow> Server.Name sa \<in> set (VPCPeers sb)"
      using la lb by (simp add: peersOf_def)
  qed
  from A B show ?thesis by (rule conjI)
qed

lemma fresh_peers:
  assumes "\<forall>k s. fmlookup m k = Some s \<longrightarrow> fresh k s"
  shows "peersDistinct m" and "peersSymmetric m"
    and "\<forall>k s. fmlookup m k = Some s \<longrightarrow> Server.Name s = k"
proof -
  have e: "VPCPeers s = []" and n: "Server.Name s = k" if "fmlookup m k = Some s" for k s
    using assms that unfolding fresh_def by blast+
  show "peersDistinct m"
    unfolding peersDistinct_def using e by simp
  have "peersOf m a = {}" for a
    by (cases "fmlookup m a") (simp_all add: peersOf_def e)
  then show "peersSymmetric m"
    unfolding peersSymmetric_def by simp
  show "\<forall>k s. fmlookup m k = Some s \<longrightarrow> Server.Name s = k"
    using n by blast
qed

lemma peeringLoop_peers:
  assumes fr: "\<forall>k s. fmlookup servers k = Some s \<longrightarrow> fresh k s"
    and p: "peeringLoop order peerings servers = Inr s1"
  shows "(\<forall>a sa. fmlookup s1 a = Some sa \<longrightarrow> Server.Name sa = a \<and> distinct (VPCPeers sa))
     \<and> (\<forall>a sa b sb. fmlookup s1 a = Some sa \<and> fmlookup s1 b = Some sb
          \<longrightarrow> (Server.Name sb \<in> set (VPCPeers sa) \<longleftrightarrow> Server.Name sa \<in> set (VPCPeers sb)))"
proof -
  from peeringLoop_inv [OF p fresh_peers(1,2) [OF fr]] have
    d: "peersDistinct s1" and y: "peersSymmetric s1" and o: "onlyPeers servers s1"
    by simp_all
  have names: "\<forall>k s. fmlookup s1 k = Some s \<longrightarrow> Server.Name s = k"
  proof (intro allI impI)
    fix k s
    assume "fmlookup s1 k = Some s"
    from onlyPeersD [OF o this] obtain s0 q where
      s0: "fmlookup servers k = Some s0" and e: "s = s0\<lparr>VPCPeers := q\<rparr>" by blast
    from fresh_peers(3) [OF fr] s0 have "Server.Name s0 = k" by blast
    with e show "Server.Name s = k" by simp
  qed
  from peers_explicit [OF names d y] show ?thesis .
qed

lemma externalLoop_peers:
  assumes x: "externalLoop order externals s1 = Inr s'"
    and q: "(\<forall>a sa. fmlookup s1 a = Some sa \<longrightarrow> Server.Name sa = a \<and> distinct (VPCPeers sa))
     \<and> (\<forall>a sa b sb. fmlookup s1 a = Some sa \<and> fmlookup s1 b = Some sb
          \<longrightarrow> (Server.Name sb \<in> set (VPCPeers sa) \<longleftrightarrow> Server.Name sa \<in> set (VPCPeers sb)))"
  shows "(\<forall>a sa. fmlookup s' a = Some sa \<longrightarrow> Server.Name sa = a \<and> distinct (VPCPeers sa))
     \<and> (\<forall>a sa b sb. fmlookup s' a = Some sa \<and> fmlookup s' b = Some sb
          \<longrightarrow> (Server.Name sb \<in> set (VPCPeers sa) \<longleftrightarrow> Server.Name sa \<in> set (VPCPeers sb)))"
proof -
  from externalLoop_Inr [OF x] have g: "externalsGrow s1 s'" by simp
  have A: "\<forall>a sa. fmlookup s' a = Some sa \<longrightarrow> Server.Name sa = a \<and> distinct (VPCPeers sa)"
  proof (intro allI impI)
    fix a sa
    assume "fmlookup s' a = Some sa"
    from externalsGrow_rev [OF g this] obtain s0 where
      s0: "fmlookup s1 a = Some s0" "Server.Name sa = Server.Name s0"
        "VPCPeers sa = VPCPeers s0" by blast
    from q s0(1) have "Server.Name s0 = a \<and> distinct (VPCPeers s0)" by blast
    with s0(2,3) show "Server.Name sa = a \<and> distinct (VPCPeers sa)" by simp
  qed
  have B: "\<forall>a sa b sb. fmlookup s' a = Some sa \<and> fmlookup s' b = Some sb
          \<longrightarrow> (Server.Name sb \<in> set (VPCPeers sa) \<longleftrightarrow> Server.Name sa \<in> set (VPCPeers sb))"
  proof (intro allI impI)
    fix a sa b sb
    assume h: "fmlookup s' a = Some sa \<and> fmlookup s' b = Some sb"
    then have la: "fmlookup s' a = Some sa" and lb: "fmlookup s' b = Some sb" by simp_all
    from externalsGrow_rev [OF g la] obtain a0 where
      a0: "fmlookup s1 a = Some a0" "Server.Name sa = Server.Name a0"
        "VPCPeers sa = VPCPeers a0" by blast
    from externalsGrow_rev [OF g lb] obtain b0 where
      b0: "fmlookup s1 b = Some b0" "Server.Name sb = Server.Name b0"
        "VPCPeers sb = VPCPeers b0" by blast
    from q a0(1) b0(1) have
      "Server.Name b0 \<in> set (VPCPeers a0) \<longleftrightarrow> Server.Name a0 \<in> set (VPCPeers b0)" by blast
    then show "Server.Name sb \<in> set (VPCPeers sa) \<longleftrightarrow> Server.Name sa \<in> set (VPCPeers sb)"
      by (simp only: a0(2,3) b0(2,3))
  qed
  from A B show ?thesis by (rule conjI)
qed

text \<open>
  C10. \<open>servers\<close> is the map that Phase B leaves. After the loop over the VPC peerings,
  and after the whole of Phase C when it ends without an error, every server of the map
  is named as its key and has no name twice among its expected peers, whatever the list of
  peerings is; and of two servers of the map, the second is among the expected peers of
  the first exactly if the first is among those of the second.
\<close>

theorem expected_peers_distinct_symmetric:
  assumes "phaseB run endpoints parseCIDR mvms data attachments vpcList = Inr (servers, logged)"
  shows
    "(peeringLoop order peerings servers = Inr s1 \<longrightarrow>
        (\<forall>a sa. fmlookup s1 a = Some sa \<longrightarrow> Server.Name sa = a \<and> distinct (VPCPeers sa))
        \<and> (\<forall>a sa b sb. fmlookup s1 a = Some sa \<and> fmlookup s1 b = Some sb
             \<longrightarrow> (Server.Name sb \<in> set (VPCPeers sa)
                    \<longleftrightarrow> Server.Name sa \<in> set (VPCPeers sb))))
     \<and> (phaseC order peerings externals servers = Inr servers' \<longrightarrow>
        (\<forall>a sa. fmlookup servers' a = Some sa \<longrightarrow> Server.Name sa = a \<and> distinct (VPCPeers sa))
        \<and> (\<forall>a sa b sb. fmlookup servers' a = Some sa \<and> fmlookup servers' b = Some sb
             \<longrightarrow> (Server.Name sb \<in> set (VPCPeers sa)
                    \<longleftrightarrow> Server.Name sa \<in> set (VPCPeers sb))))"
proof -
  note fr = phaseB_fresh [OF assms]
  have A: "peeringLoop order peerings servers = Inr s1 \<longrightarrow>
        (\<forall>a sa. fmlookup s1 a = Some sa \<longrightarrow> Server.Name sa = a \<and> distinct (VPCPeers sa))
        \<and> (\<forall>a sa b sb. fmlookup s1 a = Some sa \<and> fmlookup s1 b = Some sb
             \<longrightarrow> (Server.Name sb \<in> set (VPCPeers sa)
                    \<longleftrightarrow> Server.Name sa \<in> set (VPCPeers sb)))"
  proof
    assume p: "peeringLoop order peerings servers = Inr s1"
    from peeringLoop_peers [OF fr p]
    show "(\<forall>a sa. fmlookup s1 a = Some sa \<longrightarrow> Server.Name sa = a \<and> distinct (VPCPeers sa))
        \<and> (\<forall>a sa b sb. fmlookup s1 a = Some sa \<and> fmlookup s1 b = Some sb
             \<longrightarrow> (Server.Name sb \<in> set (VPCPeers sa)
                    \<longleftrightarrow> Server.Name sa \<in> set (VPCPeers sb)))" .
  qed
  have B: "phaseC order peerings externals servers = Inr servers' \<longrightarrow>
        (\<forall>a sa. fmlookup servers' a = Some sa \<longrightarrow> Server.Name sa = a \<and> distinct (VPCPeers sa))
        \<and> (\<forall>a sa b sb. fmlookup servers' a = Some sa \<and> fmlookup servers' b = Some sb
             \<longrightarrow> (Server.Name sb \<in> set (VPCPeers sa)
                    \<longleftrightarrow> Server.Name sa \<in> set (VPCPeers sb)))"
  proof
    assume c: "phaseC order peerings externals servers = Inr servers'"
    then obtain s2 where p: "peeringLoop order peerings servers = Inr s2"
      and x: "externalLoop order externals s2 = Inr servers'"
      unfolding phaseC_def by (cases "peeringLoop order peerings servers") simp_all
    from externalLoop_peers [OF x peeringLoop_peers [OF fr p]]
    show "(\<forall>a sa. fmlookup servers' a = Some sa \<longrightarrow> Server.Name sa = a \<and> distinct (VPCPeers sa))
        \<and> (\<forall>a sa b sb. fmlookup servers' a = Some sa \<and> fmlookup servers' b = Some sb
             \<longrightarrow> (Server.Name sb \<in> set (VPCPeers sa)
                    \<longleftrightarrow> Server.Name sa \<in> set (VPCPeers sb)))" .
  qed
  from A B show ?thesis by (rule conjI)
qed

lemma exPhaseC2:
  "(case phaseB exRun2 exEndpoints exParseCIDR2 exVMs2 exWiring2 [exAttach1, exAttach3]
           [exVPC1, exVPC2] of
      Inl e \<Rightarrow> False
    | Inr (servers, logged) \<Rightarrow>
        (case phaseC exOrder [exPeering12, exPeering12b, exPeering21] [] servers of
           Inl e \<Rightarrow> False
         | Inr servers' \<Rightarrow>
             map_option VPCPeers (fmlookup servers' ''server-1'') = Some [''server-2'']
             \<and> map_option VPCPeers (fmlookup servers' ''server-2'') = Some [''server-1'']))"
  by code_simp

theorem expected_peers_distinct_symmetric_witness:
  "\<exists>servers logged servers' sa sb.
     phaseB exRun2 exEndpoints exParseCIDR2 exVMs2 exWiring2 [exAttach1, exAttach3]
         [exVPC1, exVPC2] = Inr (servers, logged)
     \<and> phaseC exOrder [exPeering12, exPeering12b, exPeering21] [] servers = Inr servers'
     \<and> fmlookup servers' ''server-1'' = Some sa \<and> fmlookup servers' ''server-2'' = Some sb
     \<and> VPCPeers sa = [''server-2''] \<and> VPCPeers sb = [''server-1'']
     \<and> Server.Name sa = ''server-1'' \<and> Server.Name sb = ''server-2''
     \<and> distinct (VPCPeers sa) \<and> distinct (VPCPeers sb)
     \<and> Server.Name sb \<in> set (VPCPeers sa) \<and> Server.Name sa \<in> set (VPCPeers sb)"
proof -
  from exPhaseC2 obtain servers logged where
    b: "phaseB exRun2 exEndpoints exParseCIDR2 exVMs2 exWiring2 [exAttach1, exAttach3]
         [exVPC1, exVPC2] = Inr (servers, logged)"
    by (cases "phaseB exRun2 exEndpoints exParseCIDR2 exVMs2 exWiring2 [exAttach1, exAttach3]
         [exVPC1, exVPC2]") auto
  from exPhaseC2 obtain servers' where
    c: "phaseC exOrder [exPeering12, exPeering12b, exPeering21] [] servers = Inr servers'"
    and p1: "map_option VPCPeers (fmlookup servers' ''server-1'') = Some [''server-2'']"
    and p2: "map_option VPCPeers (fmlookup servers' ''server-2'') = Some [''server-1'']"
    unfolding b
    by (cases "phaseC exOrder [exPeering12, exPeering12b, exPeering21] [] servers") simp_all
  from p1 obtain sa where sa: "fmlookup servers' ''server-1'' = Some sa"
    and pa: "VPCPeers sa = [''server-2'']"
    by (cases "fmlookup servers' ''server-1''") simp_all
  from p2 obtain sb where sb: "fmlookup servers' ''server-2'' = Some sb"
    and pb: "VPCPeers sb = [''server-1'']"
    by (cases "fmlookup servers' ''server-2''") simp_all
  note t = expected_peers_distinct_symmetric [OF b,
      of exOrder "[exPeering12, exPeering12b, exPeering21]" servers' "[]" servers']
  from t c sa have na: "Server.Name sa = ''server-1''" and da: "distinct (VPCPeers sa)"
    by blast+
  from t c sb have nb: "Server.Name sb = ''server-2''" and db: "distinct (VPCPeers sb)"
    by blast+
  from t c sa sb have y: "Server.Name sb \<in> set (VPCPeers sa)
      \<longleftrightarrow> Server.Name sa \<in> set (VPCPeers sb)"
    by blast
  from nb pa have m1: "Server.Name sb \<in> set (VPCPeers sa)" by simp
  with y have m2: "Server.Name sa \<in> set (VPCPeers sb)" by simp
  from b c sa sb pa pb na nb da db m1 m2 show ?thesis by blast
qed

section \<open>The external peerings of a server\<close>

lemma onlyPeers_fwd:
  assumes "onlyPeers m m'" and "fmlookup m k = Some s"
  shows "\<exists>p. fmlookup m' k = Some (s\<lparr>VPCPeers := p\<rparr>)"
proof -
  from assms(1) have r: "rel_option (\<lambda>s s'. \<exists>p. s' = s\<lparr>VPCPeers := p\<rparr>)
      (fmlookup m k) (fmlookup m' k)"
    unfolding onlyPeers_def by (rule spec)
  then have "rel_option (\<lambda>s s'. \<exists>p. s' = s\<lparr>VPCPeers := p\<rparr>) (Some s) (fmlookup m' k)"
    unfolding assms(2) .
  from rel_option_SomeD [OF this] show ?thesis by blast
qed

lemma permits_peers: "permits p (s\<lparr>VPCPeers := q\<rparr>) = permits p s"
  by (cases "Server.VPC s") (simp_all add: permits_def)

lemma onlyPeers_externalsOK:
  assumes fr: "\<forall>k s. fmlookup m k = Some s \<longrightarrow> fresh k s" and o: "onlyPeers m m'"
  shows "externalsOK m'"
  unfolding externalsOK_def
proof (intro allI impI)
  fix k s'
  assume "fmlookup m' k = Some s'"
  from onlyPeersD [OF o this] obtain s q where
    s: "fmlookup m k = Some s" and e: "s' = s\<lparr>VPCPeers := q\<rparr>" by blast
  from fr s have "Externals s = []" unfolding fresh_def by blast
  with e show "Externals s' = [] \<or> (\<exists>n. Externals s' = [n] \<and> ExternalPeering s' \<noteq> None)"
    by simp
qed

lemma phaseC_two_externals:
  assumes fr: "\<forall>k s. fmlookup servers k = Some s \<longrightarrow> fresh k s"
    and cover: "\<forall>m. fmdom' m \<subseteq> set (order m)"
    and l: "fmlookup servers k = Some srv"
    and ij: "i < j" and jl: "j < length externals"
    and pi: "permits (externals ! i) srv" and pj: "permits (externals ! j) srv"
    and ne: "PermitExternalName (externals ! i) \<noteq> PermitExternalName (externals ! j)"
  shows "\<exists>e. phaseC order peerings externals servers = Inl e"
proof (cases "peeringLoop order peerings servers")
  case (Inl e)
  then show ?thesis by (simp add: phaseC_def)
next
  case (Inr s1)
  from peeringLoop_inv [OF Inr fresh_peers(1,2) [OF fr]] have o: "onlyPeers servers s1"
    by simp
  from onlyPeers_fwd [OF o l] obtain q where l1: "fmlookup s1 k = Some (srv\<lparr>VPCPeers := q\<rparr>)"
    by blast
  from pi have pi1: "permits (externals ! i) (srv\<lparr>VPCPeers := q\<rparr>)"
    by (simp only: permits_peers)
  from pj have pj1: "permits (externals ! j) (srv\<lparr>VPCPeers := q\<rparr>)"
    by (simp only: permits_peers)
  from externalLoop_two_externals
    [OF cover onlyPeers_externalsOK [OF fr o] l1 ij jl pi1 pj1 ne]
  obtain e where "externalLoop order externals s1 = Inl e" by blast
  with Inr show ?thesis by (simp add: phaseC_def)
qed

lemma TestServerConnectivity_phaseC:
  assumes "phaseB run endpoints parseCIDR mvms data attachments vpcList = Inr (servers, logged)"
    and "phaseC order peerings externals servers = Inl e"
  shows "TestServerConnectivity tc run endpoints parseCIDR parse order mvms data attachments
           vpcList peerings externals = Inl e"
  unfolding TestServerConnectivity_def Let_def using assms by simp

text \<open>
  C9, as the code has it. \<open>servers\<close> is the map that Phase B leaves, \<open>srv\<close> one of its
  servers, and every range over the map visits every key. When two external peerings of
  the list permit the VPC and the subnet of \<open>srv\<close> and name different externals, Phase C
  ends with an error, and the run ends with this error whatever the configuration of the
  checks and the parser of their reports are: no check is reached.
\<close>

theorem two_externals_abort:
  assumes "phaseB run endpoints parseCIDR mvms data attachments vpcList = Inr (servers, logged)"
    and "\<forall>m. fmdom' m \<subseteq> set (order m)"
    and "fmlookup servers k = Some srv"
    and "i < j" and "j < length externals"
    and "permits (externals ! i) srv" and "permits (externals ! j) srv"
    and "PermitExternalName (externals ! i) \<noteq> PermitExternalName (externals ! j)"
  shows "\<exists>e. phaseC order peerings externals servers = Inl e
     \<and> (\<forall>tc parse. TestServerConnectivity tc run endpoints parseCIDR parse order mvms data
            attachments vpcList peerings externals = Inl e)"
proof -
  from phaseC_two_externals [OF phaseB_fresh [OF assms(1)] assms(2-8)]
  obtain e where c: "phaseC order peerings externals servers = Inl e" by blast
  have "\<forall>tc parse. TestServerConnectivity tc run endpoints parseCIDR parse order mvms data
            attachments vpcList peerings externals = Inl e"
    using TestServerConnectivity_phaseC [OF assms(1) c] by blast
  with c show ?thesis by blast
qed

lemma exOrder_cover: "\<forall>m. fmdom' m \<subseteq> set (exOrder m)"
  by (simp add: exOrder_def fmdom'_alt_def)

lemma exPhaseB1:
  "(case phaseB exRun exEndpoints exParseCIDR exVMs exWiring [exAttach1] [exVPC1, exVPC2] of
      Inl e \<Rightarrow> False
    | Inr (servers, logged) \<Rightarrow>
        (case fmlookup servers ''server-1'' of
           None \<Rightarrow> False
         | Some srv \<Rightarrow>
             permits exExternal1 srv \<and> permits exExternal1b srv \<and> permits exExternal2 srv))"
  by code_simp

lemma exExternal_names:
  "PermitExternalName exExternal1 = ''ext-1''"
  "PermitExternalName exExternal1b = ''ext-1''"
  "PermitExternalName exExternal2 = ''ext-2''"
  by (simp_all add: exExternal1_def exExternal1b_def exExternal2_def)

lemma exTwoExternals:
  "TestServerConnectivity exCurlOnly exRun exEndpoints exParseCIDR (\<lambda>data. None) exOrder exVMs
       exWiring [exAttach1] [exVPC1, exVPC2] [] [exExternal1, exExternal2]
     = Inl (MultipleExternalPeerings ''server-1'')"
  by code_simp

theorem two_externals_abort_witness:
  "\<exists>servers logged srv.
     phaseB exRun exEndpoints exParseCIDR exVMs exWiring [exAttach1] [exVPC1, exVPC2]
       = Inr (servers, logged)
     \<and> fmlookup servers ''server-1'' = Some srv
     \<and> permits exExternal1 srv \<and> permits exExternal2 srv
     \<and> PermitExternalName exExternal1 \<noteq> PermitExternalName exExternal2
     \<and> phaseC exOrder [] [exExternal1, exExternal2] servers
         = Inl (MultipleExternalPeerings ''server-1'')
     \<and> TestServerConnectivity exCurlOnly exRun exEndpoints exParseCIDR (\<lambda>data. None) exOrder
           exVMs exWiring [exAttach1] [exVPC1, exVPC2] [] [exExternal1, exExternal2]
         = Inl (MultipleExternalPeerings ''server-1'')"
proof -
  from exPhaseB1 obtain servers logged where
    b: "phaseB exRun exEndpoints exParseCIDR exVMs exWiring [exAttach1] [exVPC1, exVPC2]
       = Inr (servers, logged)"
    by (cases "phaseB exRun exEndpoints exParseCIDR exVMs exWiring [exAttach1]
         [exVPC1, exVPC2]") auto
  from exPhaseB1 obtain srv where l: "fmlookup servers ''server-1'' = Some srv"
    and p1: "permits exExternal1 srv" and p2: "permits exExternal2 srv"
    unfolding b by (cases "fmlookup servers ''server-1''") simp_all
  have ne: "PermitExternalName exExternal1 \<noteq> PermitExternalName exExternal2"
    by (simp add: exExternal_names)
  have ij: "(0::nat) < 1" "1 < length [exExternal1, exExternal2]" by simp_all
  have q1: "permits ([exExternal1, exExternal2] ! 0) srv" using p1 by simp
  have q2: "permits ([exExternal1, exExternal2] ! 1) srv" using p2 by simp
  have q3: "PermitExternalName ([exExternal1, exExternal2] ! 0)
      \<noteq> PermitExternalName ([exExternal1, exExternal2] ! 1)"
    using ne by simp
  from two_externals_abort [OF b exOrder_cover l ij q1 q2 q3, where peerings = "[]"]
  obtain e where c: "phaseC exOrder [] [exExternal1, exExternal2] servers = Inl e"
    and t: "TestServerConnectivity exCurlOnly exRun exEndpoints exParseCIDR (\<lambda>data. None)
           exOrder exVMs exWiring [exAttach1] [exVPC1, exVPC2] [] [exExternal1, exExternal2]
         = Inl e"
    by blast
  from t exTwoExternals have "e = MultipleExternalPeerings ''server-1''" by simp
  with b l p1 p2 ne c t show ?thesis by blast
qed

text \<open>
  The claim as it is written aborts the run for every server that the permits of two
  external peering objects match. The two objects below match the server of the example
  and name the same external: the second is passed over, the run goes on to the checks and
  ends without an error, one check run and passed.
\<close>

theorem same_external_twice_no_abort:
  "exExternal1 \<noteq> exExternal1b
   \<and> (case phaseB exRun exEndpoints exParseCIDR exVMs exWiring [exAttach1] [exVPC1, exVPC2] of
        Inl e \<Rightarrow> False
      | Inr (servers, logged) \<Rightarrow>
          (case fmlookup servers ''server-1'' of
             None \<Rightarrow> False
           | Some srv \<Rightarrow> permits exExternal1 srv \<and> permits exExternal1b srv))
   \<and> TestServerConnectivity exCurlOnly exRun exEndpoints exParseCIDR (\<lambda>data. None) exOrder
         exVMs exWiring [exAttach1] [exVPC1, exVPC2] [] [exExternal1, exExternal1b]
       = Inr (1, 1)"
proof -
  have a: "exExternal1 \<noteq> exExternal1b"
    by (simp add: exExternal1_def exExternal1b_def)
  have b: "(case phaseB exRun exEndpoints exParseCIDR exVMs exWiring [exAttach1]
                [exVPC1, exVPC2] of
        Inl e \<Rightarrow> False
      | Inr (servers, logged) \<Rightarrow>
          (case fmlookup servers ''server-1'' of
             None \<Rightarrow> False
           | Some srv \<Rightarrow> permits exExternal1 srv \<and> permits exExternal1b srv))"
    by code_simp
  have c: "TestServerConnectivity exCurlOnly exRun exEndpoints exParseCIDR (\<lambda>data. None)
         exOrder exVMs exWiring [exAttach1] [exVPC1, exVPC2] [] [exExternal1, exExternal1b]
       = Inr (1, 1)"
    by code_simp
  from a b c show ?thesis by (intro conjI)
qed

end
